theory Spec2Isabelle
  imports Complex_Main "HOL-Library.Sublist"
begin

section \<open>Values\<close>

text \<open>
  The notebook computes with Python floats and NumPy float64 arrays. A float is modelled
  by its exact value: \<open>Finite v\<close> for a finite number, \<open>NaN\<close> for the result of an
  undefined operation such as \<open>0/0\<close>. Rounding and overflow are not modelled: arithmetic
  on finite values is exact real arithmetic. Text is modelled by its UTF-8 bytes.
\<close>

datatype pyfloat = Finite real | NaN

datatype error = ValueError

fun pf_mul :: "pyfloat \<Rightarrow> pyfloat \<Rightarrow> pyfloat" where
  "pf_mul (Finite a) (Finite b) = Finite (a * b)"
| "pf_mul _ _ = NaN"

fun pf_add :: "pyfloat \<Rightarrow> pyfloat \<Rightarrow> pyfloat" where
  "pf_add (Finite a) (Finite b) = Finite (a + b)"
| "pf_add _ _ = NaN"

definition pf_div :: "real \<Rightarrow> real \<Rightarrow> pyfloat" where
  \<comment> \<open>Division in the fit formulas. Where the divisor is zero there, so is the
      dividend (\<open>polyfit1_singular\<close> below), and \<open>0/0\<close> is NaN.\<close>
  "pf_div a b = (if b = 0 then NaN else Finite (a / b))"

section \<open>Cell 1: UI controls\<close>

text \<open>
  \<^verbatim>\<open>sigma = mo.ui.slider(0.0, 5.0, step=0.1, value=1.0, label="Noise std (...)")\<close>
  \<^verbatim>\<open>n = mo.ui.slider(50, 1000, step=50, value=300, label="Sample size (n)")\<close>
\<close>

record 'a slider =
  start :: 'a
  stop :: 'a
  step :: 'a
  slider_value :: 'a
  label :: string

definition sigma_char :: string where
  \<comment> \<open>The Greek letter sigma, U+03C3, in UTF-8.\<close>
  "sigma_char = [CHR 0xCF, CHR 0x83]"

definition sigma_slider :: "real slider" where
  "sigma_slider = \<lparr>start = 0, stop = 5, step = 1 / 10, slider_value = 1,
     label = ''Noise std ('' @ sigma_char @ '')''\<rparr>"

definition n_slider :: "int slider" where
  "n_slider = \<lparr>start = 50, stop = 1000, step = 50, slider_value = 300,
     label = ''Sample size (n)''\<rparr>"

definition cell1 :: "int slider \<times> real slider" where
  "cell1 = (n_slider, sigma_slider)"

text \<open>
  The widget keeps its value on the grid \<open>start + k * step\<close> inside \<open>[start, stop]\<close>.
\<close>

definition n_reachable :: "int \<Rightarrow> bool" where
  "n_reachable v =
     (start n_slider \<le> v \<and> v \<le> stop n_slider \<and> (v - start n_slider) mod step n_slider = 0)"

definition sigma_reachable :: "real \<Rightarrow> bool" where
  "sigma_reachable v =
     (start sigma_slider \<le> v \<and> v \<le> stop sigma_slider \<and>
      of_int \<lfloor>(v - start sigma_slider) / step sigma_slider\<rfloor> =
        (v - start sigma_slider) / step sigma_slider)"

section \<open>Cell 2: synthetic data\<close>

subsection \<open>The library functions the cell calls\<close>

text \<open>
  A generator is its seed and the number of draws taken from it so far. The stream of
  standard-normal draws a seed determines belongs to the library's bit generator and is
  a parameter \<open>Z\<close> of the model: \<open>Z s i\<close> is draw number \<open>i\<close> of a generator seeded
  with \<open>s\<close>.
\<close>

type_synonym stream = "nat \<Rightarrow> nat \<Rightarrow> real"

record generator =
  seed :: nat
  consumed :: nat

definition default_rng :: "nat \<Rightarrow> generator" where
  "default_rng s = \<lparr>seed = s, consumed = 0\<rparr>"

text \<open>
  \<open>Generator.normal(loc, scale, size)\<close> is a library function, by its documented
  behaviour: each of the \<open>size\<close> samples is \<open>loc + scale * z\<close> for the next standard normal
  draw \<open>z\<close> of the generator, which advances by \<open>size\<close> draws; a negative scale raises
  \<open>ValueError\<close>.
\<close>

definition normal ::
  "stream \<Rightarrow> generator \<Rightarrow> real \<Rightarrow> real \<Rightarrow> nat \<Rightarrow> error + (real list \<times> generator)" where
  "normal Z g loc scale sz =
     (if scale < 0 then Inl ValueError
      else Inr (map (\<lambda>i. loc + scale * Z (seed g) (consumed g + i)) [0..<sz],
                g\<lparr>consumed := consumed g + sz\<rparr>))"

text \<open>
  \<open>numpy.linspace(start, stop, num)\<close> is a library function, by its documented behaviour
  in exact arithmetic: \<open>num\<close> evenly spaced points over \<open>[start, stop]\<close>, namely
  \<open>start + i * step\<close> with \<open>step = (stop - start) / (num - 1)\<close>, the last one set to
  \<open>stop\<close>; a single point is \<open>start\<close>; a negative \<open>num\<close> raises \<open>ValueError\<close>.
\<close>

definition linspace :: "real \<Rightarrow> real \<Rightarrow> int \<Rightarrow> error + real list" where
  "linspace a b num =
     (if num < 0 then Inl ValueError
      else let k = nat num; stp = (b - a) / real (k - 1)
           in Inr (if k = 0 then []
                   else if k = 1 then [a]
                   else map (\<lambda>i. a + real i * stp) [0..<k - 1] @ [b]))"

subsection \<open>The cell\<close>

text \<open>
  \<^verbatim>\<open>rng = np.random.default_rng(42)\<close>
  \<^verbatim>\<open>x = np.linspace(0, 10, int(n.value))\<close>
  \<^verbatim>\<open>eps = rng.normal(0.0, float(sigma.value), size=x.shape)\<close>
  \<^verbatim>\<open>y = 2.5 * x + 5 + eps\<close>
  \<^verbatim>\<open>df = pd.DataFrame({"x": x, "y": y})\<close>

  The generator is a local variable of the cell: every execution builds a new one.
\<close>

record dataframe =
  x_col :: "real list"
  y_col :: "real list"

record cell2_locals =
  l_rng :: generator
  l_x :: "real list"
  l_eps :: "real list"
  l_y :: "real list"
  l_df :: dataframe

definition cell2_body :: "stream \<Rightarrow> int \<Rightarrow> real \<Rightarrow> error + cell2_locals" where
  "cell2_body Z nv sv =
     (let rng0 = default_rng 42 in
      case linspace 0 10 nv of
        Inl e \<Rightarrow> Inl e
      | Inr xs \<Rightarrow>
          (case normal Z rng0 0 sv (length xs) of
             Inl e \<Rightarrow> Inl e
           | Inr (es, rng1) \<Rightarrow>
               (let ys = map2 (\<lambda>xi ei. 5 / 2 * xi + 5 + ei) xs es
                in Inr \<lparr>l_rng = rng1, l_x = xs, l_eps = es, l_y = ys,
                         l_df = \<lparr>x_col = xs, y_col = ys\<rparr>\<rparr>)))"

definition cell2 :: "stream \<Rightarrow> int \<Rightarrow> real \<Rightarrow> error + dataframe" where
  \<comment> \<open>The cell returns \<open>df\<close>.\<close>
  "cell2 Z nv sv = (case cell2_body Z nv sv of Inl e \<Rightarrow> Inl e | Inr l \<Rightarrow> Inr (l_df l))"

subsection \<open>Re-execution\<close>

text \<open>
  A session re-executes the cell once per change of the sliders. The kernel keeps the
  cell's output \<open>df\<close>; \<open>noise\<close> and \<open>draws_made\<close> record, for the statements below, the
  noise vector of the last execution and the number of draws taken from generators
  since the session started. A failed execution leaves no output.
\<close>

record kernel =
  df_var :: "dataframe option"
  noise :: "real list option"
  draws_made :: nat

definition kernel0 :: kernel where
  "kernel0 = \<lparr>df_var = None, noise = None, draws_made = 0\<rparr>"

definition run_cell2 :: "stream \<Rightarrow> kernel \<Rightarrow> int \<times> real \<Rightarrow> kernel" where
  "run_cell2 Z k v =
     (case cell2_body Z (fst v) (snd v) of
        Inl e \<Rightarrow> k\<lparr>df_var := None, noise := None\<rparr>
      | Inr l \<Rightarrow> k\<lparr>df_var := Some (l_df l), noise := Some (l_eps l),
                     draws_made := draws_made k + consumed (l_rng l)\<rparr>)"

definition session :: "stream \<Rightarrow> kernel \<Rightarrow> (int \<times> real) list \<Rightarrow> kernel" where
  "session Z k vs = foldl (run_cell2 Z) k vs"

definition sample_stream :: stream where
  \<comment> \<open>One concrete stream, for closed examples only; no theorem depends on its values.\<close>
  "sample_stream s i = (real ((s + 7 * i) mod 11) - 5) / 4"

section \<open>Cell 3: linear fit\<close>

subsection \<open>The library functions the cell calls\<close>

text \<open>
  Modelled from the spec: \<open>numpy.polyfit(x, y, 1)\<close> is library code outside the
  repository. The spec describes it as an "ordinary least squares degree-1 polynomial
  fit (closed-form normal equations)", and the cell's own comment says the same. The two
  normal equations are solved by Cramer's rule; the result is highest power first:
  (slope, intercept). Where the equations are singular the formulas are \<open>0/0\<close>, the
  spec's "undefined/NaN slope".
\<close>

definition polyfit1 :: "real list \<Rightarrow> real list \<Rightarrow> pyfloat \<times> pyfloat" where
  "polyfit1 xs ys =
     (let m = real (length xs);
          sx = sum_list xs;
          sy = sum_list ys;
          sxx = (\<Sum>a\<leftarrow>xs. a * a);
          sxy = (\<Sum>(a, b)\<leftarrow>zip xs ys. a * b);
          det = m * sxx - sx * sx
      in (pf_div (m * sxy - sx * sy) det, pf_div (sy * sxx - sx * sxy) det))"

definition mean :: "real list \<Rightarrow> real" where
  "mean xs = sum_list xs / real (length xs)"

definition cov :: "real list \<Rightarrow> real list \<Rightarrow> real" where
  \<comment> \<open>The sample covariance, normalised by \<open>N - 1\<close>.\<close>
  "cov xs ys =
     (\<Sum>(a, b)\<leftarrow>zip xs ys. (a - mean xs) * (b - mean ys)) / (real (length xs) - 1)"

text \<open>
  \<open>numpy.corrcoef(x, y)[0, 1]\<close> is a library function, by its documented behaviour in
  exact arithmetic: the sample covariance of \<open>x\<close> and \<open>y\<close>, divided by the two standard
  deviations in turn and clipped to \<open>[-1, 1]\<close>. With fewer than two points, or with a
  constant column, the quotient is \<open>0/0\<close>.
\<close>

definition corrcoef :: "real list \<Rightarrow> real list \<Rightarrow> pyfloat" where
  "corrcoef xs ys =
     (if length xs < 2 then NaN
      else let cxx = cov xs xs; cyy = cov ys ys; cxy = cov xs ys
           in if cxx = 0 \<or> cyy = 0 then NaN
              else Finite (max (- 1) (min 1 (cxy / sqrt cxx / sqrt cyy))))"

subsection \<open>The cell\<close>

text \<open>
  \<^verbatim>\<open>slope, intercept = np.polyfit(df["x"], df["y"], 1)\<close>
  \<^verbatim>\<open>r = np.corrcoef(df["x"], df["y"])[0, 1]\<close>
  \<^verbatim>\<open>y_hat = slope * df["x"] + intercept\<close>
\<close>

record fit =
  slope :: pyfloat
  intercept :: pyfloat
  r :: pyfloat
  y_hat :: "pyfloat list"

definition cell3 :: "dataframe \<Rightarrow> fit" where
  "cell3 d =
     (let (s, i) = polyfit1 (x_col d) (y_col d);
          c = corrcoef (x_col d) (y_col d);
          yh = map (\<lambda>xi. pf_add (pf_mul s (Finite xi)) i) (x_col d)
      in \<lparr>slope = s, intercept = i, r = c, y_hat = yh\<rparr>)"

subsection \<open>The spec's words for the fit\<close>

definition ssr :: "real list \<Rightarrow> real list \<Rightarrow> real \<Rightarrow> real \<Rightarrow> real" where
  \<comment> \<open>The sum of squared residuals of the line \<open>a * x + b\<close> over the data.\<close>
  "ssr xs ys a b = (\<Sum>(u, v)\<leftarrow>zip xs ys. (v - (a * u + b)) ^ 2)"

definition pearson :: "real list \<Rightarrow> real list \<Rightarrow> real" where
  \<comment> \<open>The Pearson correlation coefficient in its textbook form.\<close>
  "pearson xs ys =
     (\<Sum>(u, v)\<leftarrow>zip xs ys. (u - mean xs) * (v - mean ys)) /
     sqrt ((\<Sum>u\<leftarrow>xs. (u - mean xs) ^ 2) * (\<Sum>v\<leftarrow>ys. (v - mean ys) ^ 2))"

text \<open>
  The closed form of the least-squares line as the textbooks give it: the slope is the sum
  of the centred cross products over the sum of the centred squares of \<open>x\<close>, and the line
  passes through the point of means.
\<close>

definition ols_slope :: "real list \<Rightarrow> real list \<Rightarrow> real" where
  "ols_slope xs ys =
     (\<Sum>(u, v)\<leftarrow>zip xs ys. (u - mean xs) * (v - mean ys)) / (\<Sum>u\<leftarrow>xs. (u - mean xs) ^ 2)"

definition ols_intercept :: "real list \<Rightarrow> real list \<Rightarrow> real" where
  "ols_intercept xs ys = mean ys - ols_slope xs ys * mean xs"

section \<open>Cell 4: report\<close>

subsection \<open>Python's number formatting\<close>

text \<open>
  The report is an f-string. A replacement field without a format specification prints
  an int in decimal; the specification \<open>.pf\<close> prints a float with exactly \<open>p\<close> digits
  after the point, the exact value of the float rounded to that many decimals with ties
  to even, a minus sign first for a negative value. A NaN prints as \<open>nan\<close>. The model
  of floats has one zero and no infinity: Python prints the float \<open>-0.0\<close> as \<open>-0.00\<close> and
  an infinity as \<open>inf\<close>, and neither is a value here.
\<close>

definition digit_char :: "nat \<Rightarrow> char" where
  "digit_char d = ''0123456789'' ! d"

fun str_nat :: "nat \<Rightarrow> string" where
  "str_nat k = (if k < 10 then [digit_char k] else str_nat (k div 10) @ [digit_char (k mod 10)])"

declare str_nat.simps [simp del]

definition str_int :: "int \<Rightarrow> string" where
  \<comment> \<open>\<open>str\<close> of a Python int.\<close>
  "str_int i = (if i < 0 then CHR ''-'' # str_nat (nat (- i)) else str_nat (nat i))"

definition round_half_even :: "real \<Rightarrow> int" where
  "round_half_even v =
     (let f = \<lfloor>v\<rfloor>; d = v - of_int f
      in if d < 1 / 2 then f else if 1 / 2 < d then f + 1 else if even f then f else f + 1)"

definition zfill :: "nat \<Rightarrow> string \<Rightarrow> string" where
  "zfill w s = replicate (w - length s) CHR ''0'' @ s"

fun format_f :: "nat \<Rightarrow> pyfloat \<Rightarrow> string" where
  "format_f p NaN = ''nan''"
| "format_f p (Finite v) =
     (let q = nat (round_half_even (\<bar>v\<bar> * 10 ^ p))
      in (if v < 0 then ''-'' else []) @ str_nat (q div 10 ^ p) @
         (if p = 0 then [] else ''.'' @ zfill p (str_nat (q mod 10 ^ p))))"

subsection \<open>The cell\<close>

text \<open>
  The cell hands one f-string to \<open>mo.md\<close>; it starts and ends with a line break and
  writes the Greek letter sigma where \<open>(s)\<close> stands below:

  \<^verbatim>\<open>### Relationship summary\<close>
  \<^verbatim>\<open>- **Model**: $y = {slope:.2f}x + {intercept:.2f}$\<close>
  \<^verbatim>\<open>- **Correlation**: $r = {r:.3f}$\<close>
  \<^verbatim>\<open>- **Sample size**: **{n.value}**\<close>
  \<^verbatim>\<open>- **Noise std ((s))**: **{sigma.value:.1f}**\<close>
  \<^verbatim>\<open>\<close>
  \<^verbatim>\<open>_As (s) increases, the points spread further from the line; correlation and\<close>
  \<^verbatim>\<open>the stability of the fitted slope typically decrease._\<close>

  The model is this text, before \<open>mo.md\<close> renders it.
\<close>

definition nl :: string where
  "nl = [CHR 0x0A]"

definition cell4 ::
  "pyfloat \<Rightarrow> int slider \<Rightarrow> pyfloat \<Rightarrow> real slider \<Rightarrow> pyfloat \<Rightarrow> string" where
  "cell4 icpt ns c ss slp =
     nl @ ''### Relationship summary'' @ nl @
     ''- **Model**: $y = '' @ format_f 2 slp @ ''x + '' @ format_f 2 icpt @ ''$'' @ nl @
     ''- **Correlation**: $r = '' @ format_f 3 c @ ''$'' @ nl @
     ''- **Sample size**: **'' @ str_int (slider_value ns) @ ''**'' @ nl @
     ''- **Noise std ('' @ sigma_char @ '')**: **'' @
       format_f 1 (Finite (slider_value ss)) @ ''**'' @ nl @
     nl @
     ''_As '' @ sigma_char @ '' increases, the points spread further from the line; '' @
     ''correlation and the stability of the fitted slope typically decrease._'' @ nl"

subsection \<open>Reading a formatted number\<close>

definition is_digit :: "char \<Rightarrow> bool" where
  "is_digit ch = (ch \<in> set ''0123456789'')"

definition fixed_point :: "nat \<Rightarrow> string \<Rightarrow> bool" where
  \<comment> \<open>An optional minus sign, at least one digit, a point, exactly \<open>p\<close> digits.\<close>
  "fixed_point p s =
     (let u = (case s of [] \<Rightarrow> [] | ch # t \<Rightarrow> if ch = CHR ''-'' then t else s);
          ip = takeWhile is_digit u;
          rest = dropWhile is_digit u
      in ip \<noteq> [] \<and>
         (case rest of [] \<Rightarrow> False
          | ch # fp \<Rightarrow> ch = CHR ''.'' \<and> length fp = p \<and> list_all is_digit fp))"

definition integer_text :: "string \<Rightarrow> bool" where
  \<comment> \<open>An optional minus sign and at least one digit, nothing else.\<close>
  "integer_text s =
     (let u = (case s of [] \<Rightarrow> [] | ch # t \<Rightarrow> if ch = CHR ''-'' then t else s)
      in u \<noteq> [] \<and> list_all is_digit u)"

definition digit_val :: "char \<Rightarrow> nat" where
  "digit_val ch = of_char ch - 48"

definition read_nat :: "string \<Rightarrow> nat" where
  "read_nat s = foldl (\<lambda>a ch. 10 * a + digit_val ch) 0 s"

definition read_fixed :: "string \<Rightarrow> real" where
  \<comment> \<open>The number a fixed-point text denotes.\<close>
  "read_fixed s =
     (let neg = (case s of [] \<Rightarrow> False | ch # t \<Rightarrow> ch = CHR ''-'');
          u = (if neg then tl s else s);
          ip = takeWhile is_digit u;
          fp = drop 1 (dropWhile is_digit u);
          v = real (read_nat ip) + real (read_nat fp) / 10 ^ length fp
      in if neg then - v else v)"

definition read_int :: "string \<Rightarrow> int" where
  \<comment> \<open>The integer an integer text denotes.\<close>
  "read_int s =
     (case s of [] \<Rightarrow> 0
      | ch # t \<Rightarrow> if ch = CHR ''-'' then - int (read_nat t) else int (read_nat s))"

section \<open>Cell 5: chart\<close>

text \<open>
  \<^verbatim>\<open>fig = go.Figure()\<close>
  \<^verbatim>\<open>fig.add_scatter(x=df["x"], y=df["y"], mode="markers", name="observations")\<close>
  \<^verbatim>\<open>fig.add_scatter(x=df["x"], y=y_hat, mode="lines", name="fit")\<close>
  \<^verbatim>\<open>fig.update_layout(title=..., xaxis_title="x", yaxis_title="y",\<close>
  \<^verbatim>\<open>    template="plotly_white", legend=dict(orientation="h", yanchor="bottom",\<close>
  \<^verbatim>\<open>    y=1.02, xanchor="right", x=1))\<close>

  A figure is its list of traces and its layout; \<open>add_scatter\<close> appends a trace and
  \<open>update_layout\<close> sets the named layout fields.
\<close>

record scatter =
  trace_x :: "real list"
  trace_y :: "pyfloat list"
  mode :: string
  name :: string

record legend =
  orientation :: string
  yanchor :: string
  legend_y :: real
  xanchor :: string
  legend_x :: real

record layout =
  title :: "string option"
  xaxis_title :: "string option"
  yaxis_title :: "string option"
  template :: "string option"
  legend :: "legend option"

record figure =
  traces :: "scatter list"
  fig_layout :: layout

definition Figure :: figure where
  "Figure = \<lparr>traces = [],
     fig_layout = \<lparr>title = None, xaxis_title = None, yaxis_title = None,
       template = None, legend = None\<rparr>\<rparr>"

definition add_scatter ::
  "figure \<Rightarrow> real list \<Rightarrow> pyfloat list \<Rightarrow> string \<Rightarrow> string \<Rightarrow> figure" where
  "add_scatter fig xs ys m nm =
     fig\<lparr>traces := traces fig @ [\<lparr>trace_x = xs, trace_y = ys, mode = m, name = nm\<rparr>]\<rparr>"

definition update_layout ::
  "figure \<Rightarrow> string \<Rightarrow> string \<Rightarrow> string \<Rightarrow> string \<Rightarrow> legend \<Rightarrow> figure" where
  "update_layout fig t xt yt tp lg =
     fig\<lparr>fig_layout := (fig_layout fig)\<lparr>title := Some t, xaxis_title := Some xt,
       yaxis_title := Some yt, template := Some tp, legend := Some lg\<rparr>\<rparr>"

definition cell5 :: "dataframe \<Rightarrow> pyfloat list \<Rightarrow> figure" where
  "cell5 d yh =
     (let fig = Figure;
          fig = add_scatter fig (x_col d) (map Finite (y_col d)) ''markers'' ''observations'';
          fig = add_scatter fig (x_col d) yh ''lines'' ''fit'';
          fig = update_layout fig ''Linear relationship with controllable noise''
                  ''x'' ''y'' ''plotly_white''
                  \<lparr>orientation = ''h'', yanchor = ''bottom'', legend_y = 102 / 100,
                    xanchor = ''right'', legend_x = 1\<rparr>
      in fig)"

section \<open>Recomputation\<close>

text \<open>
  Each cell is a function of the variables it names as parameters: cell 2 takes \<open>n\<close> and
  \<open>sigma\<close>, cell 3 takes \<open>df\<close>, cell 4 takes \<open>intercept, n, r, sigma, slope\<close>, cell 5 takes
  \<open>df\<close> and \<open>y_hat\<close>. No cell contains a \<open>try\<close> statement or a test on its data.

  Modelled from the spec: the host runtime that calls the cells is outside the
  repository. The spec says that a change of a slider re-evaluates the cells in
  dependency order and that a failure in a computation cell "propagates as an uncaught
  exception that halts that recomputation cycle", with "no retry, no partial-failure
  recovery". A cycle is therefore the cells 2, 3, 4, 5 in turn, each called once; an
  exception raised by cell 2 is the result of the cycle and no later cell runs. Cells 3
  to 5 have no failing branch in this model: where the formulas are undefined their
  results are NaN.
\<close>

record outputs =
  out_df :: dataframe
  out_fit :: fit
  out_report :: string
  out_fig :: figure

definition recompute :: "stream \<Rightarrow> int slider \<Rightarrow> real slider \<Rightarrow> error + outputs" where
  "recompute Z ns ss =
     (case cell2 Z (slider_value ns) (slider_value ss) of
        Inl e \<Rightarrow> Inl e
      | Inr d \<Rightarrow>
          (let f = cell3 d
           in Inr \<lparr>out_df = d, out_fit = f,
                   out_report = cell4 (intercept f) ns (r f) ss (slope f),
                   out_fig = cell5 d (y_hat f)\<rparr>))"

section \<open>Properties of the data generation cell\<close>

subsection \<open>Evenly spaced points\<close>

lemma linspace_Inr:
  "0 \<le> num \<Longrightarrow> \<exists>xs. linspace a b num = Inr xs \<and> length xs = nat num"
  by (auto simp: linspace_def Let_def)

lemma linspace_length:
  "linspace a b num = Inr xs \<Longrightarrow> length xs = nat num"
  by (auto simp: linspace_def Let_def split: if_splits)

lemma linspace_nth:
  assumes "linspace a b num = Inr xs" and "2 \<le> num" and "i < nat num"
  shows "xs ! i = a + real i * ((b - a) / (real_of_int num - 1))"
proof -
  define k where "k = nat num"
  have k: "2 \<le> k" "real k = real_of_int num" using assms(2) by (auto simp: k_def)
  have xs: "xs = map (\<lambda>i. a + real i * ((b - a) / real (k - 1))) [0..<k - 1] @ [b]"
    using assms(1,2) k(1) by (auto simp: linspace_def Let_def k_def split: if_splits)
  have rk: "real (k - 1) = real_of_int num - 1" using k by (simp add: of_nat_diff)
  show ?thesis
  proof (cases "i < k - 1")
    case True
    then have "xs ! i = a + real i * ((b - a) / real (k - 1))"
      by (simp add: xs nth_append)
    then show ?thesis by (simp only: rk)
  next
    case False
    then have i: "i = k - 1" using assms(3) by (simp add: k_def)
    have nz: "real_of_int num - 1 \<noteq> 0" using assms(2) by simp
    have "xs ! (k - 1) = b" by (simp add: xs nth_append)
    moreover have "a + real (k - 1) * ((b - a) / (real_of_int num - 1)) = b"
      unfolding rk using nz by simp
    ultimately show ?thesis by (simp only: i)
  qed
qed

lemma linspace_sorted:
  assumes "linspace a b num = Inr xs" and "a \<le> b"
  shows "sorted xs"
proof (cases "2 \<le> num")
  case True
  have len: "length xs = nat num" by (rule linspace_length [OF assms(1)])
  have stp: "0 \<le> (b - a) / (real_of_int num - 1)" using True assms(2) by simp
  show ?thesis
    unfolding sorted_iff_nth_mono
  proof (intro allI impI)
    fix i j assume "i \<le> j" "j < length xs"
    then have "i < nat num" "j < nat num" by (simp_all add: len)
    then have "xs ! i = a + real i * ((b - a) / (real_of_int num - 1))"
      and "xs ! j = a + real j * ((b - a) / (real_of_int num - 1))"
      by (simp_all only: linspace_nth [OF assms(1) True])
    moreover have "real i * ((b - a) / (real_of_int num - 1)) \<le>
        real j * ((b - a) / (real_of_int num - 1))"
      using \<open>i \<le> j\<close> stp by (intro mult_right_mono) simp_all
    ultimately show "xs ! i \<le> xs ! j" by simp
  qed
next
  case False
  then show ?thesis using assms(1)
    by (auto simp: linspace_def Let_def split: if_splits)
qed

lemma linspace_hd_last:
  assumes "linspace a b num = Inr xs" and "2 \<le> num"
  shows "hd xs = a \<and> last xs = b"
proof -
  have len: "length xs = nat num" by (rule linspace_length [OF assms(1)])
  have "xs \<noteq> []" using len assms(2) by auto
  have "hd xs = xs ! 0" using \<open>xs \<noteq> []\<close> by (simp add: hd_conv_nth)
  also have "\<dots> = a" using linspace_nth [OF assms, of 0] assms(2) by simp
  finally have h: "hd xs = a" .
  have "last xs = b" using assms
    by (auto simp: linspace_def Let_def split: if_splits)
  with h show ?thesis by simp
qed

lemma linspace_two_values:
  assumes "linspace a b num = Inr xs" and "2 \<le> num"
  shows "a \<in> set xs \<and> b \<in> set xs"
proof -
  have "length xs = nat num" by (rule linspace_length [OF assms(1)])
  then have "xs \<noteq> []" using assms(2) by auto
  then have "hd xs \<in> set xs" "last xs \<in> set xs" by simp_all
  then show ?thesis using linspace_hd_last [OF assms] by simp
qed

subsection \<open>What the cell computes\<close>

lemma reachable_bounds:
  "n_reachable nv \<Longrightarrow> 50 \<le> nv \<and> nv \<le> 1000"
  "sigma_reachable sv \<Longrightarrow> 0 \<le> sv \<and> sv \<le> 5"
  by (simp_all add: n_reachable_def n_slider_def sigma_reachable_def sigma_slider_def)

lemma cell2_body_Inr:
  assumes "linspace 0 10 nv = Inr xs" and "0 \<le> sv"
  shows "cell2_body Z nv sv =
    Inr \<lparr>l_rng = \<lparr>seed = 42, consumed = nat nv\<rparr>, l_x = xs,
         l_eps = map (\<lambda>i. 0 + sv * Z 42 i) [0..<nat nv],
         l_y = map2 (\<lambda>xi ei. 5 / 2 * xi + 5 + ei) xs (map (\<lambda>i. 0 + sv * Z 42 i) [0..<nat nv]),
         l_df = \<lparr>x_col = xs,
           y_col = map2 (\<lambda>xi ei. 5 / 2 * xi + 5 + ei) xs (map (\<lambda>i. 0 + sv * Z 42 i) [0..<nat nv])\<rparr>\<rparr>"
  using assms linspace_length [OF assms(1)]
  by (simp add: cell2_body_def normal_def default_rng_def Let_def)

lemma cell2_noise_free:
  assumes "linspace 0 10 nv = Inr xs"
  shows "cell2 Z nv 0 = Inr \<lparr>x_col = xs, y_col = map (\<lambda>u. 5 / 2 * u + 5) xs\<rparr>"
proof -
  have len: "length xs = nat nv" by (rule linspace_length [OF assms])
  have "map2 (\<lambda>xi ei. 5 / 2 * xi + 5 + ei) xs (map (\<lambda>i. 0 + 0 * Z 42 i) [0..<nat nv]) =
      map (\<lambda>u. 5 / 2 * u + 5) xs"
    by (simp add: list_eq_iff_nth_eq len)
  then show ?thesis
    by (simp add: cell2_def cell2_body_Inr [OF assms, of 0 Z])
qed

lemma y_hat_length: "length (y_hat (cell3 d)) = length (x_col d)"
  by (simp add: cell3_def Let_def split: prod.splits)

text \<open>
  Claim C3. For slider-reachable values of \<open>n\<close> and \<open>sigma\<close> the cell succeeds; \<open>x\<close> is
  \<open>n\<close> evenly spaced points over \<open>[0, 10]\<close> (point \<open>i\<close> is \<open>i * 10 / (n - 1)\<close>, the first is
  0 and the last is 10); the noise is \<open>0 + sigma * z\<close> for the first \<open>n\<close> standard normal
  draws \<open>z\<close> of a generator seeded with 42; and \<open>y\<close> is \<open>2.5 * x + 5 + noise\<close> pointwise.
\<close>

theorem cell2_computes:
  assumes "n_reachable nv" and "sigma_reachable sv"
  shows "\<exists>l. cell2_body Z nv sv = Inr l \<and> cell2 Z nv sv = Inr (l_df l)
    \<and> l_df l = \<lparr>x_col = l_x l, y_col = l_y l\<rparr>
    \<and> int (length (l_x l)) = nv
    \<and> (\<forall>i<nat nv. l_x l ! i = 0 + real i * ((10 - 0) / (real_of_int nv - 1)))
    \<and> hd (l_x l) = 0 \<and> last (l_x l) = 10
    \<and> l_rng l = \<lparr>seed = 42, consumed = nat nv\<rparr>
    \<and> l_eps l = map (\<lambda>i. 0 + sv * Z 42 i) [0..<nat nv]
    \<and> length (l_y l) = length (l_x l)
    \<and> (\<forall>i<nat nv. l_y l ! i = 5 / 2 * l_x l ! i + 5 + l_eps l ! i)"
proof -
  have nv: "2 \<le> nv" and sv: "0 \<le> sv"
    using reachable_bounds(1) [OF assms(1)] reachable_bounds(2) [OF assms(2)] by simp_all
  obtain xs where xs: "linspace 0 10 nv = Inr xs" and len: "length xs = nat nv"
    using linspace_Inr [of nv 0 10] nv by auto
  have nth: "\<forall>i<nat nv. xs ! i = 0 + real i * ((10 - 0) / (real_of_int nv - 1))"
    using linspace_nth [OF xs nv] by blast
  have ends: "hd xs = 0 \<and> last xs = 10" by (rule linspace_hd_last [OF xs nv])
  show ?thesis
    using nv len nth ends
    by (simp add: cell2_def cell2_body_Inr [OF xs sv])
qed

text \<open>
  The theorem at the default slider values, \<open>n = 300\<close> and \<open>sigma = 1\<close>.
\<close>

theorem cell2_computes_witness:
  "n_reachable 300 \<and> sigma_reachable 1 \<and>
   (\<exists>l. cell2_body sample_stream 300 1 = Inr l \<and> cell2 sample_stream 300 1 = Inr (l_df l)
    \<and> l_df l = \<lparr>x_col = l_x l, y_col = l_y l\<rparr>
    \<and> int (length (l_x l)) = 300
    \<and> (\<forall>i<nat 300. l_x l ! i = 0 + real i * ((10 - 0) / (real_of_int 300 - 1)))
    \<and> hd (l_x l) = 0 \<and> last (l_x l) = 10
    \<and> l_rng l = \<lparr>seed = 42, consumed = nat 300\<rparr>
    \<and> l_eps l = map (\<lambda>i. 0 + 1 * sample_stream 42 i) [0..<nat 300]
    \<and> length (l_y l) = length (l_x l)
    \<and> (\<forall>i<nat 300. l_y l ! i = 5 / 2 * l_x l ! i + 5 + l_eps l ! i))"
proof -
  have a: "n_reachable 300" by (simp add: n_reachable_def n_slider_def)
  have b: "sigma_reachable 1" by (simp add: sigma_reachable_def sigma_slider_def)
  show ?thesis using a b cell2_computes [OF a b, of sample_stream] by blast
qed

text \<open>
  Claim C4. For every \<open>n \<ge> 2\<close> and \<open>sigma \<ge> 0\<close> the cell succeeds and its dataset has
  exactly \<open>n\<close> values of \<open>x\<close>, in non-decreasing order, the first 0 and the last 10, and as
  many values of \<open>y\<close>; the fitted values \<open>y_hat\<close> of the fit cell are as many as the \<open>x\<close>
  values, for this and for every other dataset.
\<close>

theorem dataset_shape:
  assumes "2 \<le> nv" and "0 \<le> sv"
  shows "\<exists>d. cell2 Z nv sv = Inr d
    \<and> int (length (x_col d)) = nv \<and> sorted (x_col d)
    \<and> hd (x_col d) = 0 \<and> last (x_col d) = 10
    \<and> length (y_col d) = length (x_col d) \<and> int (length (y_col d)) = nv
    \<and> length (y_hat (cell3 d)) = length (x_col d)
    \<and> (\<forall>d'. length (y_hat (cell3 d')) = length (x_col d'))"
proof -
  obtain xs where xs: "linspace 0 10 nv = Inr xs" and len: "length xs = nat nv"
    using linspace_Inr [of nv 0 10] assms(1) by auto
  have "sorted xs" by (rule linspace_sorted [OF xs]) simp
  moreover have "hd xs = 0 \<and> last xs = 10" by (rule linspace_hd_last [OF xs assms(1)])
  ultimately show ?thesis
    using assms(1) len
    by (simp add: cell2_def cell2_body_Inr [OF xs assms(2)] y_hat_length)
qed

text \<open>
  The theorem at \<open>n = 300\<close> and \<open>sigma = 1\<close>.
\<close>

theorem dataset_shape_witness:
  "(2::int) \<le> 300 \<and> (0::real) \<le> 1 \<and>
   (\<exists>d. cell2 sample_stream 300 1 = Inr d
    \<and> int (length (x_col d)) = 300 \<and> sorted (x_col d)
    \<and> hd (x_col d) = 0 \<and> last (x_col d) = 10
    \<and> length (y_col d) = length (x_col d) \<and> int (length (y_col d)) = 300
    \<and> length (y_hat (cell3 d)) = length (x_col d)
    \<and> (\<forall>d'. length (y_hat (cell3 d')) = length (x_col d')))"
  using dataset_shape [of 300 1 sample_stream] by simp

subsection \<open>Re-execution\<close>

lemma run_cell2_df_var:
  "df_var (run_cell2 Z k v) =
     (case cell2 Z (fst v) (snd v) of Inl e \<Rightarrow> None | Inr d \<Rightarrow> Some d)"
  by (simp add: run_cell2_def cell2_def split: sum.splits)

lemma run_cell2_noise:
  assumes "0 \<le> nv" and "0 \<le> sv"
  shows "noise (run_cell2 Z k (nv, sv)) = Some (map (\<lambda>i. 0 + sv * Z 42 i) [0..<nat nv])"
    and "draws_made (run_cell2 Z k (nv, sv)) = draws_made k + nat nv"
proof -
  obtain xs where xs: "linspace 0 10 nv = Inr xs"
    using linspace_Inr [OF assms(1)] by blast
  show "noise (run_cell2 Z k (nv, sv)) = Some (map (\<lambda>i. 0 + sv * Z 42 i) [0..<nat nv])"
    by (simp add: run_cell2_def cell2_body_Inr [OF xs assms(2)])
  show "draws_made (run_cell2 Z k (nv, sv)) = draws_made k + nat nv"
    by (simp add: run_cell2_def cell2_body_Inr [OF xs assms(2)])
qed

text \<open>
  Claim C9. The cell builds a fresh generator seeded with 42 on every execution, so the
  dataset it leaves is a function of the slider values alone. After any two histories of
  earlier executions, from any two kernels, executing the cell with the same slider
  values leaves the same dataset. For \<open>n \<ge> 0\<close> and \<open>sigma \<ge> 0\<close> the execution succeeds and
  the dataset is determined by \<open>(n, sigma)\<close>: the generator the cell holds at its end has
  seed 42 and has given exactly \<open>n\<close> draws, the noise is \<open>sigma\<close> times the draws
  \<open>0, ..., n - 1\<close> of the stream of seed 42, \<open>x\<close> is \<open>linspace 0 10 n\<close>, \<open>y\<close> is
  \<open>2.5 x + 5 + noise\<close> pointwise, and this dataset is what both executions leave, while
  the number of draws taken since the session started differs with the history.
\<close>

theorem cell2_output_independent_of_history:
  "df_var (run_cell2 Z (session Z k1 h1) (nv, sv)) =
     df_var (run_cell2 Z (session Z k2 h2) (nv, sv))
   \<and> (0 \<le> nv \<and> 0 \<le> sv \<longrightarrow>
       (\<exists>l. cell2_body Z nv sv = Inr l
          \<and> l_rng l = \<lparr>seed = 42, consumed = nat nv\<rparr>
          \<and> l_eps l = map (\<lambda>i. 0 + sv * Z 42 i) [0..<nat nv]
          \<and> linspace 0 10 nv = Inr (x_col (l_df l))
          \<and> y_col (l_df l) =
              map2 (\<lambda>xi ei. 5 / 2 * xi + 5 + ei) (x_col (l_df l)) (l_eps l)
          \<and> cell2 Z nv sv = Inr (l_df l)
          \<and> df_var (run_cell2 Z (session Z k1 h1) (nv, sv)) = Some (l_df l)
          \<and> df_var (run_cell2 Z (session Z k2 h2) (nv, sv)) = Some (l_df l)
          \<and> draws_made (run_cell2 Z (session Z k1 h1) (nv, sv)) =
              draws_made (session Z k1 h1) + consumed (l_rng l)))"
proof (intro conjI impI)
  show "df_var (run_cell2 Z (session Z k1 h1) (nv, sv)) =
      df_var (run_cell2 Z (session Z k2 h2) (nv, sv))"
    by (simp add: run_cell2_df_var)
next
  assume h: "0 \<le> nv \<and> 0 \<le> sv"
  then obtain xs where xs: "linspace 0 10 nv = Inr xs"
    using linspace_Inr [of nv 0 10] by blast
  have sv: "0 \<le> sv" using h by simp
  note b = cell2_body_Inr [OF xs sv, of Z]
  show "\<exists>l. cell2_body Z nv sv = Inr l
      \<and> l_rng l = \<lparr>seed = 42, consumed = nat nv\<rparr>
      \<and> l_eps l = map (\<lambda>i. 0 + sv * Z 42 i) [0..<nat nv]
      \<and> linspace 0 10 nv = Inr (x_col (l_df l))
      \<and> y_col (l_df l) =
          map2 (\<lambda>xi ei. 5 / 2 * xi + 5 + ei) (x_col (l_df l)) (l_eps l)
      \<and> cell2 Z nv sv = Inr (l_df l)
      \<and> df_var (run_cell2 Z (session Z k1 h1) (nv, sv)) = Some (l_df l)
      \<and> df_var (run_cell2 Z (session Z k2 h2) (nv, sv)) = Some (l_df l)
      \<and> draws_made (run_cell2 Z (session Z k1 h1) (nv, sv)) =
          draws_made (session Z k1 h1) + consumed (l_rng l)"
    by (simp add: b xs run_cell2_def cell2_def)
qed

text \<open>
  The theorem at \<open>n = 50\<close>, \<open>sigma = 0.5\<close> after two different histories, one with 150
  earlier draws and one with 100: both executions leave the same 50 points, the first
  of which is \<open>(0, 5.5)\<close> for the sample stream.
\<close>

theorem cell2_output_independent_of_history_witness:
  "(0::int) \<le> 50 \<and> (0::real) \<le> 1 / 2
   \<and> (\<exists>l. cell2_body sample_stream 50 (1 / 2) = Inr l
        \<and> l_rng l = \<lparr>seed = 42, consumed = 50\<rparr>
        \<and> df_var (run_cell2 sample_stream
              (session sample_stream kernel0 [(50, 1), (100, 2)]) (50, 1 / 2)) = Some (l_df l)
        \<and> df_var (run_cell2 sample_stream
              (session sample_stream kernel0 [(100, 2)]) (50, 1 / 2)) = Some (l_df l)
        \<and> length (x_col (l_df l)) = 50
        \<and> hd (x_col (l_df l)) = 0 \<and> hd (y_col (l_df l)) = 11 / 2)
   \<and> draws_made (session sample_stream kernel0 [(50, 1), (100, 2)]) = 150
   \<and> draws_made (session sample_stream kernel0 [(100, 2)]) = 100"
proof -
  have a: "(0::int) \<le> 50" and b: "(0::real) \<le> 1 / 2" by simp_all
  have "0 \<le> (50::int) \<and> 0 \<le> (1 / 2 :: real) \<longrightarrow>
      (\<exists>l. cell2_body sample_stream 50 (1 / 2) = Inr l
          \<and> l_rng l = \<lparr>seed = 42, consumed = nat 50\<rparr>
          \<and> l_eps l = map (\<lambda>i. 0 + 1 / 2 * sample_stream 42 i) [0..<nat 50]
          \<and> linspace 0 10 50 = Inr (x_col (l_df l))
          \<and> y_col (l_df l) =
              map2 (\<lambda>xi ei. 5 / 2 * xi + 5 + ei) (x_col (l_df l)) (l_eps l)
          \<and> cell2 sample_stream 50 (1 / 2) = Inr (l_df l)
          \<and> df_var (run_cell2 sample_stream
                (session sample_stream kernel0 [(50, 1), (100, 2)]) (50, 1 / 2)) = Some (l_df l)
          \<and> df_var (run_cell2 sample_stream
                (session sample_stream kernel0 [(100, 2)]) (50, 1 / 2)) = Some (l_df l)
          \<and> draws_made (run_cell2 sample_stream
                (session sample_stream kernel0 [(50, 1), (100, 2)]) (50, 1 / 2)) =
              draws_made (session sample_stream kernel0 [(50, 1), (100, 2)])
                + consumed (l_rng l))"
    using cell2_output_independent_of_history [of sample_stream kernel0
        "[(50, 1), (100, 2)]" 50 "1 / 2" kernel0 "[(100, 2)]"]
    by (rule conjunct2)
  then obtain l where l: "cell2_body sample_stream 50 (1 / 2) = Inr l"
      "l_rng l = \<lparr>seed = 42, consumed = nat 50\<rparr>"
      "l_eps l = map (\<lambda>i. 0 + 1 / 2 * sample_stream 42 i) [0..<nat 50]"
      "linspace 0 10 50 = Inr (x_col (l_df l))"
      "y_col (l_df l) = map2 (\<lambda>xi ei. 5 / 2 * xi + 5 + ei) (x_col (l_df l)) (l_eps l)"
      "df_var (run_cell2 sample_stream
          (session sample_stream kernel0 [(50, 1), (100, 2)]) (50, 1 / 2)) = Some (l_df l)"
      "df_var (run_cell2 sample_stream
          (session sample_stream kernel0 [(100, 2)]) (50, 1 / 2)) = Some (l_df l)"
    using a b by blast
  have len: "length (x_col (l_df l)) = 50"
    using linspace_length [OF l(4)] by simp
  have hx: "hd (x_col (l_df l)) = 0"
    using linspace_hd_last [OF l(4)] by simp
  obtain x0 xt where xs: "x_col (l_df l) = x0 # xt"
    using len by (cases "x_col (l_df l)") auto
  have x0: "x0 = 0" using hx by (simp add: xs)
  have "[0..<nat 50] = 0 # [1..<50]" by (simp add: upt_conv_Cons)
  then have "l_eps l = (0 + 1 / 2 * sample_stream 42 0) #
      map (\<lambda>i. 0 + 1 / 2 * sample_stream 42 i) [1..<50]"
    by (simp add: l(3))
  then have hy: "hd (y_col (l_df l)) = 11 / 2"
    by (simp add: l(5) xs x0 sample_stream_def)
  have d1: "draws_made (session sample_stream kernel0 [(50, 1), (100, 2)]) = 150"
    by (simp add: session_def kernel0_def run_cell2_noise)
  have d2: "draws_made (session sample_stream kernel0 [(100, 2)]) = 100"
    by (simp add: session_def kernel0_def run_cell2_noise)
  have r: "l_rng l = \<lparr>seed = 42, consumed = 50\<rparr>" using l(2) by simp
  show ?thesis
    using a b l(1) r l(6) l(7) len hx hy d1 d2 by blast
qed

text \<open>
  Claim C2 says that a re-run regenerates the same noise only if the order of the
  executions and the number of draws taken before are the same. On the code this fails:
  below, one session has executed the cell twice (150 draws) and the other once (100
  draws), and the next execution at \<open>n = 100\<close>, \<open>sigma = 0.5\<close> leaves the same noise and
  the same dataset in both. The noise is not trivially equal: it starts
  \<open>0.5, 0, -0.5\<close> for the sample stream.
\<close>

theorem rerun_after_other_draws_counterexample:
  "noise (run_cell2 sample_stream (session sample_stream kernel0 [(50, 1), (100, 2)]) (100, 1 / 2)) =
     noise (run_cell2 sample_stream (session sample_stream kernel0 [(100, 2)]) (100, 1 / 2))
   \<and> df_var (run_cell2 sample_stream (session sample_stream kernel0 [(50, 1), (100, 2)]) (100, 1 / 2)) =
     df_var (run_cell2 sample_stream (session sample_stream kernel0 [(100, 2)]) (100, 1 / 2))
   \<and> map_option (take 3)
       (noise (run_cell2 sample_stream (session sample_stream kernel0 [(50, 1), (100, 2)]) (100, 1 / 2)))
     = Some [1 / 2, 0, - 1 / 2]
   \<and> draws_made (session sample_stream kernel0 [(50, 1), (100, 2)]) = 150
   \<and> draws_made (session sample_stream kernel0 [(100, 2)]) = 100"
proof -
  have upt3: "[0..<3] = [0, 1, 2]" by (simp add: upt_rec)
  show ?thesis
    by (simp add: run_cell2_noise run_cell2_df_var session_def kernel0_def take_map
        sample_stream_def upt3)
qed

text \<open>
  Claim C2 as amended. For every \<open>n \<ge> 0\<close> and \<open>sigma \<ge> 0\<close>, re-running the cell regenerates
  identical noise whatever was executed before, in whatever order and with however many
  draws: the generator is seeded anew with 42 in each execution, so the noise is always
  \<open>sigma\<close> times the first \<open>n\<close> draws of that stream.
\<close>

theorem rerun_reproduces_noise:
  assumes "0 \<le> nv" and "0 \<le> sv"
  shows "noise (run_cell2 Z (session Z k1 h1) (nv, sv)) =
      noise (run_cell2 Z (session Z k2 h2) (nv, sv))
    \<and> noise (run_cell2 Z (session Z k1 h1) (nv, sv)) =
      Some (map (\<lambda>i. 0 + sv * Z 42 i) [0..<nat nv])"
  by (simp add: run_cell2_noise [OF assms])

text \<open>
  The theorem for the two sessions of the counterexample.
\<close>

theorem rerun_reproduces_noise_witness:
  "(0::int) \<le> 100 \<and> (0::real) \<le> 1 / 2 \<and>
   noise (run_cell2 sample_stream (session sample_stream kernel0 [(50, 1), (100, 2)]) (100, 1 / 2)) =
      noise (run_cell2 sample_stream (session sample_stream kernel0 [(100, 2)]) (100, 1 / 2))
    \<and> noise (run_cell2 sample_stream (session sample_stream kernel0 [(50, 1), (100, 2)]) (100, 1 / 2)) =
      Some (map (\<lambda>i. 0 + 1 / 2 * sample_stream 42 i) [0..<nat 100])"
proof -
  have a: "(0::int) \<le> 100" and b: "(0::real) \<le> 1 / 2" by simp_all
  show ?thesis
    using a b rerun_reproduces_noise [OF a b, of sample_stream kernel0 "[(50, 1), (100, 2)]"
      kernel0 "[(100, 2)]"]
    by blast
qed

section \<open>Properties of the fit cell\<close>

subsection \<open>Sums over paired data\<close>

lemma sum_sq_expand:
  fixes ps :: "(real \<times> real) list"
  shows "(\<Sum>(u, v)\<leftarrow>ps. (al * u + be * v + ga) ^ 2) =
    al ^ 2 * (\<Sum>(u, v)\<leftarrow>ps. u * u) + be ^ 2 * (\<Sum>(u, v)\<leftarrow>ps. v * v)
    + real (length ps) * ga ^ 2
    + 2 * al * be * (\<Sum>(u, v)\<leftarrow>ps. u * v)
    + 2 * al * ga * (\<Sum>(u, v)\<leftarrow>ps. u) + 2 * be * ga * (\<Sum>(u, v)\<leftarrow>ps. v)"
  by (induction ps) (auto simp: algebra_simps power2_eq_square)

lemma sum_sq_nonneg:
  fixes ps :: "(real \<times> real) list" and f :: "real \<Rightarrow> real \<Rightarrow> real"
  shows "0 \<le> (\<Sum>(u, v)\<leftarrow>ps. (f u v) ^ 2)"
  by (induction ps) auto

lemma sum_zip_fst:
  "length xs = length ys \<Longrightarrow> (\<Sum>(u, v)\<leftarrow>zip xs ys. f u) = (\<Sum>u\<leftarrow>xs. f u)"
  by (induction xs ys rule: list_induct2) auto

lemma sum_zip_snd:
  "length xs = length ys \<Longrightarrow> (\<Sum>(u, v)\<leftarrow>zip xs ys. f v) = (\<Sum>v\<leftarrow>ys. f v)"
  by (induction xs ys rule: list_induct2) auto

lemma sum_zip_map:
  "length xs = length ys \<Longrightarrow>
    (\<Sum>(u, v)\<leftarrow>zip (map f xs) (map g ys). h u v) = (\<Sum>(u, v)\<leftarrow>zip xs ys. h (f u) (g v))"
  by (induction xs ys rule: list_induct2) auto

lemma sum_zip_graph:
  "(\<Sum>(u, v)\<leftarrow>zip xs (map f xs). h u v) = (\<Sum>u\<leftarrow>xs. h u (f u))"
  by (induction xs) auto

lemma sum_zip_same:
  "(\<Sum>(u, v)\<leftarrow>zip xs xs. h u v) = (\<Sum>u\<leftarrow>xs. h u u)"
  by (induction xs) auto

lemma sum_centered_sq:
  fixes xs :: "real list"
  shows "(\<Sum>u\<leftarrow>xs. (u - m) ^ 2) =
    (\<Sum>u\<leftarrow>xs. u * u) - 2 * m * sum_list xs + real (length xs) * m ^ 2"
  by (induction xs) (auto simp: algebra_simps power2_eq_square)

lemma sum_affine:
  fixes xs :: "real list"
  shows "(\<Sum>u\<leftarrow>xs. a * u + b) = a * sum_list xs + real (length xs) * b"
    and "(\<Sum>u\<leftarrow>xs. u * (a * u + b)) = a * (\<Sum>u\<leftarrow>xs. u * u) + b * sum_list xs"
  by (induction xs) (auto simp: algebra_simps)

lemma sum_scaled:
  fixes c :: real and f :: "real \<Rightarrow> real"
  shows "(\<Sum>u\<leftarrow>xs. c * f u) = c * (\<Sum>u\<leftarrow>xs. f u)"
  by (induction xs) (auto simp: algebra_simps)

lemma cauchy_schwarz_list:
  fixes ps :: "(real \<times> real) list"
  assumes "0 < (\<Sum>(u, v)\<leftarrow>ps. v * v)"
  shows "(\<Sum>(u, v)\<leftarrow>ps. u * v) ^ 2 \<le> (\<Sum>(u, v)\<leftarrow>ps. u * u) * (\<Sum>(u, v)\<leftarrow>ps. v * v)"
proof -
  define A where "A = (\<Sum>(u, v)\<leftarrow>ps. u * u)"
  define B where "B = (\<Sum>(u, v)\<leftarrow>ps. v * v)"
  define P where "P = (\<Sum>(u, v)\<leftarrow>ps. u * v)"
  have "0 \<le> (\<Sum>(u, v)\<leftarrow>ps. (B * u + (- P) * v + 0) ^ 2)"
    by (rule sum_sq_nonneg)
  also have "\<dots> = B ^ 2 * A + (- P) ^ 2 * B + 2 * B * (- P) * P"
    unfolding sum_sq_expand by (simp add: A_def B_def P_def)
  also have "\<dots> = B * (A * B - P ^ 2)"
    by (simp add: algebra_simps power2_eq_square)
  finally have "0 \<le> B * (A * B - P ^ 2)" .
  moreover have "0 < B" using assms by (simp add: B_def)
  ultimately have "0 \<le> A * B - P ^ 2" by (simp add: zero_le_mult_iff)
  then show ?thesis by (simp add: A_def B_def P_def)
qed

lemma det_centered:
  fixes xs :: "real list"
  assumes "xs \<noteq> []"
  shows "real (length xs) * (\<Sum>u\<leftarrow>xs. u * u) - sum_list xs * sum_list xs =
    real (length xs) * (\<Sum>u\<leftarrow>xs. (u - mean xs) ^ 2)"
proof -
  have n: "real (length xs) \<noteq> 0" using assms by simp
  show ?thesis
    unfolding sum_centered_sq mean_def using n
    by (simp add: field_simps power2_eq_square)
qed

lemma centered_sq_nonneg:
  fixes xs :: "real list"
  shows "0 \<le> (\<Sum>u\<leftarrow>xs. (u - m) ^ 2)"
  by (induction xs) auto

lemma centered_sq_pos:
  fixes xs :: "real list"
  assumes "p \<in> set xs" and "q \<in> set xs" and "p \<noteq> q"
  shows "0 < (\<Sum>u\<leftarrow>xs. (u - m) ^ 2)"
proof -
  obtain z where z: "z \<in> set xs" "z \<noteq> m" using assms by (cases "p = m") auto
  have "(\<Sum>u\<leftarrow>xs. (u - m) ^ 2) \<noteq> 0"
  proof
    assume "(\<Sum>u\<leftarrow>xs. (u - m) ^ 2) = 0"
    then have "\<forall>w\<in>set (map (\<lambda>u. (u - m) ^ 2) xs). w = 0"
      by (subst (asm) sum_list_nonneg_eq_0_iff) auto
    then have "(z - m) ^ 2 = 0" using z(1) by auto
    then show False using z(2) by simp
  qed
  then show ?thesis using centered_sq_nonneg [of m xs] by simp
qed

subsection \<open>Least squares\<close>

lemma polyfit1_Finite:
  assumes "polyfit1 xs ys = (Finite s, Finite i)"
  shows "real (length xs) * (\<Sum>u\<leftarrow>xs. u * u) - sum_list xs * sum_list xs \<noteq> 0"
    and "s = (real (length xs) * (\<Sum>(u, v)\<leftarrow>zip xs ys. u * v) - sum_list xs * sum_list ys) /
          (real (length xs) * (\<Sum>u\<leftarrow>xs. u * u) - sum_list xs * sum_list xs)"
    and "i = (sum_list ys * (\<Sum>u\<leftarrow>xs. u * u) - sum_list xs * (\<Sum>(u, v)\<leftarrow>zip xs ys. u * v)) /
          (real (length xs) * (\<Sum>u\<leftarrow>xs. u * u) - sum_list xs * sum_list xs)"
  using assms by (auto simp: polyfit1_def pf_div_def Let_def split: if_splits)

lemma polyfit1_normal_equations:
  assumes "polyfit1 xs ys = (Finite s, Finite i)"
  shows "s * (\<Sum>u\<leftarrow>xs. u * u) + i * sum_list xs = (\<Sum>(u, v)\<leftarrow>zip xs ys. u * v)"
    and "s * sum_list xs + i * real (length xs) = sum_list ys"
proof -
  define Sx where "Sx = sum_list xs"
  define Sy where "Sy = sum_list ys"
  define Sxx where "Sxx = (\<Sum>u\<leftarrow>xs. u * u)"
  define Sxy where "Sxy = (\<Sum>(u, v)\<leftarrow>zip xs ys. u * v)"
  define n where "n = real (length xs)"
  define D where "D = n * Sxx - Sx * Sx"
  have D: "D \<noteq> 0" and s: "s = (n * Sxy - Sx * Sy) / D" and i: "i = (Sy * Sxx - Sx * Sxy) / D"
    using polyfit1_Finite [OF assms] by (simp_all add: D_def Sx_def Sy_def Sxx_def Sxy_def n_def)
  have "s * Sxx + i * Sx = ((n * Sxy - Sx * Sy) * Sxx + (Sy * Sxx - Sx * Sxy) * Sx) / D"
    by (simp add: s i add_divide_distrib)
  also have "(n * Sxy - Sx * Sy) * Sxx + (Sy * Sxx - Sx * Sxy) * Sx = Sxy * D"
    by (simp add: D_def algebra_simps)
  finally have "s * Sxx + i * Sx = Sxy" using D by simp
  then show "s * (\<Sum>u\<leftarrow>xs. u * u) + i * sum_list xs = (\<Sum>(u, v)\<leftarrow>zip xs ys. u * v)"
    by (simp add: Sx_def Sxx_def Sxy_def)
  have "s * Sx + i * n = ((n * Sxy - Sx * Sy) * Sx + (Sy * Sxx - Sx * Sxy) * n) / D"
    by (simp add: s i add_divide_distrib)
  also have "(n * Sxy - Sx * Sy) * Sx + (Sy * Sxx - Sx * Sxy) * n = Sy * D"
    by (simp add: D_def algebra_simps)
  finally have "s * Sx + i * n = Sy" using D by simp
  then show "s * sum_list xs + i * real (length xs) = sum_list ys"
    by (simp add: Sx_def Sy_def n_def)
qed

lemma ssr_expand:
  assumes "length xs = length ys"
  shows "ssr xs ys a b =
    a ^ 2 * (\<Sum>u\<leftarrow>xs. u * u) + (\<Sum>v\<leftarrow>ys. v * v) + real (length xs) * b ^ 2
    - 2 * a * (\<Sum>(u, v)\<leftarrow>zip xs ys. u * v) + 2 * a * b * sum_list xs - 2 * b * sum_list ys"
proof -
  have "ssr xs ys a b = (\<Sum>(u, v)\<leftarrow>zip xs ys. ((- a) * u + 1 * v + (- b)) ^ 2)"
    unfolding ssr_def by (rule arg_cong [of _ _ sum_list]) (auto simp: algebra_simps)
  also have "\<dots> = a ^ 2 * (\<Sum>u\<leftarrow>xs. u * u) + (\<Sum>v\<leftarrow>ys. v * v) + real (length xs) * b ^ 2
    - 2 * a * (\<Sum>(u, v)\<leftarrow>zip xs ys. u * v) + 2 * a * b * sum_list xs - 2 * b * sum_list ys"
    unfolding sum_sq_expand
    using sum_zip_fst [OF assms, of "\<lambda>u. u * u"] sum_zip_snd [OF assms, of "\<lambda>v. v * v"]
      sum_zip_fst [OF assms, of "\<lambda>u. u"] sum_zip_snd [OF assms, of "\<lambda>v. v"] assms
    by simp
  finally show ?thesis .
qed

lemma polyfit1_minimises:
  assumes len: "length xs = length ys" and fit: "polyfit1 xs ys = (Finite s, Finite i)"
  shows "ssr xs ys s i \<le> ssr xs ys a b"
proof -
  define Sx where "Sx = sum_list xs"
  define Sxx where "Sxx = (\<Sum>u\<leftarrow>xs. u * u)"
  define n where "n = real (length xs)"
  have ne: "(\<Sum>(u, v)\<leftarrow>zip xs ys. u * v) = s * Sxx + i * Sx" "sum_list ys = s * Sx + i * n"
    using polyfit1_normal_equations [OF fit] by (simp_all add: Sx_def Sxx_def n_def)
  have "0 \<le> (\<Sum>(u, v)\<leftarrow>zip xs xs. ((a - s) * u + 0 * v + (b - i)) ^ 2)"
    by (rule sum_sq_nonneg)
  also have "\<dots> = (a - s) ^ 2 * Sxx + n * (b - i) ^ 2 + 2 * (a - s) * (b - i) * Sx"
    unfolding sum_sq_expand by (simp add: sum_zip_same Sx_def Sxx_def n_def)
  also have "\<dots> = ssr xs ys a b - ssr xs ys s i"
    unfolding ssr_expand [OF len] ne Sx_def [symmetric] Sxx_def [symmetric] n_def [symmetric]
    by (simp add: algebra_simps power2_eq_square)
  finally show ?thesis by simp
qed

lemma polyfit1_strict:
  assumes len: "length xs = length ys" and fit: "polyfit1 xs ys = (Finite s, Finite i)"
  shows "ssr xs ys s i < ssr xs ys a b \<or> (a = s \<and> b = i)"
proof -
  define Sx where "Sx = sum_list xs"
  define Sxx where "Sxx = (\<Sum>u\<leftarrow>xs. u * u)"
  define n where "n = real (length xs)"
  define D where "D = n * Sxx - Sx * Sx"
  define al where "al = a - s"
  define be where "be = b - i"
  define G where "G = al ^ 2 * Sxx + n * be ^ 2 + 2 * al * be * Sx"
  have D0: "D \<noteq> 0"
    using polyfit1_Finite(1) [OF fit] by (simp add: D_def n_def Sxx_def Sx_def)
  have ne: "xs \<noteq> []" using D0 by (auto simp: D_def Sx_def Sxx_def n_def)
  then have n: "0 < n" by (simp add: n_def)
  have "D = n * (\<Sum>u\<leftarrow>xs. (u - mean xs) ^ 2)"
    using det_centered [OF ne] by (simp add: D_def n_def Sxx_def Sx_def)
  then have "0 \<le> D" using n centered_sq_nonneg [of "mean xs" xs] by simp
  then have D: "0 < D" using D0 by simp
  have nes: "(\<Sum>(u, v)\<leftarrow>zip xs ys. u * v) = s * Sxx + i * Sx" "sum_list ys = s * Sx + i * n"
    using polyfit1_normal_equations [OF fit] by (simp_all add: Sx_def Sxx_def n_def)
  have gap: "ssr xs ys a b - ssr xs ys s i = G"
    unfolding ssr_expand [OF len] nes Sx_def [symmetric] Sxx_def [symmetric] n_def [symmetric]
      G_def al_def be_def
    by (simp add: algebra_simps power2_eq_square)
  have nG: "n * G = (n * be + al * Sx) ^ 2 + al ^ 2 * D"
    by (simp add: G_def D_def algebra_simps power2_eq_square)
  have "0 \<le> n * G" unfolding nG using D by simp
  then have G: "0 \<le> G" using n by (simp add: zero_le_mult_iff)
  show ?thesis
  proof (cases "G = 0")
    case True
    then have "(n * be + al * Sx) ^ 2 + al ^ 2 * D = 0" using nG by simp
    moreover have "0 \<le> (n * be + al * Sx) ^ 2" "0 \<le> al ^ 2 * D" using D by simp_all
    ultimately have z: "(n * be + al * Sx) ^ 2 = 0" "al ^ 2 * D = 0" by linarith+
    from z(2) D have al0: "al = 0" by simp
    with z(1) n have "be = 0" by simp
    with al0 show ?thesis by (simp add: al_def be_def)
  next
    case False
    with G gap show ?thesis by simp
  qed
qed

lemma polyfit1_defined:
  assumes "p \<in> set xs" and "q \<in> set xs" and "p \<noteq> q"
  shows "real (length xs) * (\<Sum>u\<leftarrow>xs. u * u) - sum_list xs * sum_list xs \<noteq> 0"
    and "\<exists>s i. polyfit1 xs ys = (Finite s, Finite i)"
proof -
  have ne: "xs \<noteq> []" using assms(1) by auto
  have "0 < (\<Sum>u\<leftarrow>xs. (u - mean xs) ^ 2)" by (rule centered_sq_pos [OF assms])
  then show d: "real (length xs) * (\<Sum>u\<leftarrow>xs. u * u) - sum_list xs * sum_list xs \<noteq> 0"
    using ne by (simp add: det_centered)
  then show "\<exists>s i. polyfit1 xs ys = (Finite s, Finite i)"
    by (simp add: polyfit1_def pf_div_def Let_def)
qed

lemma sum_zip_const:
  fixes ys :: "real list"
  assumes "length xs = length ys" and "\<forall>u\<in>set xs. u = p"
  shows "(\<Sum>(u, v)\<leftarrow>zip xs ys. u * v) = p * sum_list ys"
  using assms by (induction xs ys rule: list_induct2) (auto simp: algebra_simps)

lemma centered_sq_zero_iff:
  fixes xs :: "real list"
  shows "(\<Sum>u\<leftarrow>xs. (u - m) ^ 2) = 0 \<longleftrightarrow> (\<forall>u\<in>set xs. u = m)"
  by (subst sum_list_nonneg_eq_0_iff) auto

lemma polyfit1_singular:
  assumes len: "length xs = length ys"
    and det: "real (length xs) * (\<Sum>u\<leftarrow>xs. u * u) - sum_list xs * sum_list xs = 0"
  shows "real (length xs) * (\<Sum>(u, v)\<leftarrow>zip xs ys. u * v) - sum_list xs * sum_list ys = 0"
    and "sum_list ys * (\<Sum>u\<leftarrow>xs. u * u) - sum_list xs * (\<Sum>(u, v)\<leftarrow>zip xs ys. u * v) = 0"
    and "polyfit1 xs ys = (NaN, NaN)"
proof -
  define m where "m = mean xs"
  define n where "n = real (length xs)"
  have all: "\<forall>u\<in>set xs. u = m"
  proof (cases "xs = []")
    case True
    then show ?thesis by simp
  next
    case False
    then have "n \<noteq> 0" by (simp add: n_def)
    moreover have "n * (\<Sum>u\<leftarrow>xs. (u - mean xs) ^ 2) = 0"
      using det det_centered [OF False] by (simp add: n_def)
    ultimately have "(\<Sum>u\<leftarrow>xs. (u - m) ^ 2) = 0" by (simp add: m_def)
    then show ?thesis by (simp only: centered_sq_zero_iff)
  qed
  have xs: "xs = replicate (length xs) m"
    using all by (simp add: replicate_length_same)
  have Sx: "sum_list xs = n * m"
    by (subst xs) (simp add: sum_list_replicate n_def)
  have "map (\<lambda>u. u * u) xs = replicate (length xs) (m * m)"
    by (subst xs) simp
  then have Sxx: "(\<Sum>u\<leftarrow>xs. u * u) = n * (m * m)"
    by (simp add: sum_list_replicate n_def)
  have Sxy: "(\<Sum>(u, v)\<leftarrow>zip xs ys. u * v) = m * sum_list ys"
    by (rule sum_zip_const [OF len all])
  show "real (length xs) * (\<Sum>(u, v)\<leftarrow>zip xs ys. u * v) - sum_list xs * sum_list ys = 0"
    by (simp add: Sx Sxy n_def [symmetric])
  show "sum_list ys * (\<Sum>u\<leftarrow>xs. u * u) - sum_list xs * (\<Sum>(u, v)\<leftarrow>zip xs ys. u * v) = 0"
    by (simp add: Sx Sxx Sxy)
  show "polyfit1 xs ys = (NaN, NaN)"
    using det by (simp add: polyfit1_def pf_div_def Let_def)
qed

lemma polyfit1_exact_line:
  assumes "real (length xs) * (\<Sum>u\<leftarrow>xs. u * u) - sum_list xs * sum_list xs \<noteq> 0"
  shows "polyfit1 xs (map (\<lambda>u. a * u + b) xs) = (Finite a, Finite b)"
proof -
  define Sx where "Sx = sum_list xs"
  define Sxx where "Sxx = (\<Sum>u\<leftarrow>xs. u * u)"
  define n where "n = real (length xs)"
  define D where "D = n * Sxx - Sx * Sx"
  have D: "D \<noteq> 0" using assms by (simp add: D_def n_def Sxx_def Sx_def)
  have Sy: "sum_list (map (\<lambda>u. a * u + b) xs) = a * Sx + n * b"
    by (simp add: sum_affine(1) Sx_def n_def)
  have Sxy: "(\<Sum>(u, v)\<leftarrow>zip xs (map (\<lambda>u. a * u + b) xs). u * v) = a * Sxx + b * Sx"
    by (simp add: sum_zip_graph sum_affine(2) Sx_def Sxx_def)
  have "n * (a * Sxx + b * Sx) - Sx * (a * Sx + n * b) = a * D"
    by (simp add: D_def algebra_simps)
  moreover have "(a * Sx + n * b) * Sxx - Sx * (a * Sxx + b * Sx) = b * D"
    by (simp add: D_def algebra_simps)
  moreover have "polyfit1 xs (map (\<lambda>u. a * u + b) xs) =
      (pf_div (n * (a * Sxx + b * Sx) - Sx * (a * Sx + n * b)) D,
       pf_div ((a * Sx + n * b) * Sxx - Sx * (a * Sxx + b * Sx)) D)"
    unfolding polyfit1_def Let_def Sy Sxy
    by (simp only: Sx_def Sxx_def n_def D_def Sy Sxy)
  ultimately show ?thesis
    using D by (simp add: pf_div_def)
qed

subsection \<open>Correlation\<close>

lemma cov_centered:
  assumes "length xs = length ys"
  shows "cov xs xs = (\<Sum>u\<leftarrow>xs. (u - mean xs) ^ 2) / (real (length xs) - 1)"
    and "cov ys ys = (\<Sum>v\<leftarrow>ys. (v - mean ys) ^ 2) / (real (length xs) - 1)"
  by (simp_all add: cov_def sum_zip_same power2_eq_square assms)

lemma corrcoef_Finite:
  assumes "corrcoef xs ys = Finite c"
  shows "2 \<le> length xs" and "cov xs xs \<noteq> 0" and "cov ys ys \<noteq> 0"
    and "c = max (- 1) (min 1 (cov xs ys / sqrt (cov xs xs) / sqrt (cov ys ys)))"
  using assms by (auto simp: corrcoef_def Let_def split: if_splits)

lemma corrcoef_pearson:
  assumes len: "length xs = length ys" and c: "corrcoef xs ys = Finite c"
  shows "c = pearson xs ys \<and> - 1 \<le> c \<and> c \<le> 1"
proof -
  note f = corrcoef_Finite [OF c]
  define N where "N = real (length xs) - 1"
  define A where "A = (\<Sum>u\<leftarrow>xs. (u - mean xs) ^ 2)"
  define B where "B = (\<Sum>v\<leftarrow>ys. (v - mean ys) ^ 2)"
  define P where "P = (\<Sum>(u, v)\<leftarrow>zip xs ys. (u - mean xs) * (v - mean ys))"
  have N: "0 < N" using f(1) by (simp add: N_def)
  have cxx: "cov xs xs = A / N" and cyy: "cov ys ys = B / N"
    using cov_centered [OF len] by (simp_all add: A_def B_def N_def)
  have cxy: "cov xs ys = P / N" by (simp add: cov_def P_def N_def)
  have A: "0 < A"
    using f(2) N centered_sq_nonneg [of "mean xs" xs] by (simp add: cxx A_def less_le)
  have B: "0 < B"
    using f(3) N centered_sq_nonneg [of "mean ys" ys] by (simp add: cyy B_def less_le)
  have sq: "sqrt (A / N) * sqrt (B / N) = sqrt (A * B) / N"
    using N by (simp add: real_sqrt_divide real_sqrt_mult)
  have "cov xs ys / sqrt (cov xs xs) / sqrt (cov ys ys) =
      (P / N) / (sqrt (A / N) * sqrt (B / N))"
    by (simp add: cxx cyy cxy)
  also have "\<dots> = (P / N) / (sqrt (A * B) / N)" by (simp only: sq)
  also have "\<dots> = P / sqrt (A * B)" using N by simp
  finally have q: "cov xs ys / sqrt (cov xs xs) / sqrt (cov ys ys) = P / sqrt (A * B)" .
  have "(\<Sum>(u, v)\<leftarrow>zip (map (\<lambda>u. u - mean xs) xs) (map (\<lambda>v. v - mean ys) ys). u * v) ^ 2
      \<le> (\<Sum>(u, v)\<leftarrow>zip (map (\<lambda>u. u - mean xs) xs) (map (\<lambda>v. v - mean ys) ys). u * u)
        * (\<Sum>(u, v)\<leftarrow>zip (map (\<lambda>u. u - mean xs) xs) (map (\<lambda>v. v - mean ys) ys). v * v)"
  proof (rule cauchy_schwarz_list)
    show "0 < (\<Sum>(u, v)\<leftarrow>zip (map (\<lambda>u. u - mean xs) xs) (map (\<lambda>v. v - mean ys) ys). v * v)"
      using B by (simp add: sum_zip_map [OF len] sum_zip_snd [OF len] B_def power2_eq_square)
  qed
  then have cs: "P ^ 2 \<le> A * B"
    by (simp add: sum_zip_map [OF len] sum_zip_snd [OF len] sum_zip_fst [OF len]
        A_def B_def P_def power2_eq_square)
  have AB: "0 < sqrt (A * B)" using A B by simp
  have "\<bar>P\<bar> \<le> sqrt (A * B)"
    using cs by (simp add: real_le_rsqrt abs_le_iff)
  then have "- sqrt (A * B) \<le> P" "P \<le> sqrt (A * B)" by (simp_all add: abs_le_iff)
  then have "- 1 \<le> P / sqrt (A * B)" "P / sqrt (A * B) \<le> 1"
    using AB by (simp_all add: pos_le_divide_eq pos_divide_le_eq)
  moreover have "c = max (- 1) (min 1 (P / sqrt (A * B)))" using f(4) unfolding q .
  ultimately have "c = P / sqrt (A * B)" by simp
  moreover have "pearson xs ys = P / sqrt (A * B)"
    by (simp add: pearson_def A_def B_def P_def)
  ultimately show ?thesis
    using \<open>- 1 \<le> P / sqrt (A * B)\<close> \<open>P / sqrt (A * B) \<le> 1\<close> by simp
qed

lemma corrcoef_exact_line:
  assumes n: "2 \<le> length xs" and pos: "0 < (\<Sum>u\<leftarrow>xs. (u - mean xs) ^ 2)" and a: "0 < a"
  shows "corrcoef xs (map (\<lambda>u. a * u + b) xs) = Finite 1"
proof -
  define ys where "ys = map (\<lambda>u. a * u + b) xs"
  define N where "N = real (length xs) - 1"
  define A where "A = (\<Sum>u\<leftarrow>xs. (u - mean xs) ^ 2)"
  have N: "0 < N" using n by (simp add: N_def)
  have len: "length xs = length ys" by (simp add: ys_def)
  have "sum_list ys = a * sum_list xs + real (length xs) * b"
    by (simp add: ys_def sum_affine(1))
  moreover have "real (length xs) \<noteq> 0" using n by auto
  ultimately have my: "mean ys = a * mean xs + b"
    by (simp add: mean_def len [symmetric] add_divide_distrib)
  have "(\<Sum>(u, v)\<leftarrow>zip xs ys. (u - mean xs) * (v - mean ys)) =
      (\<Sum>u\<leftarrow>xs. a * (u - mean xs) ^ 2)"
    unfolding ys_def [symmetric] my unfolding ys_def sum_zip_graph
    by (rule arg_cong [of _ _ sum_list]) (simp add: algebra_simps power2_eq_square)
  then have cxy: "cov xs ys = a * A / N"
    by (simp add: cov_def sum_scaled A_def N_def)
  have "(\<Sum>v\<leftarrow>ys. (v - mean ys) ^ 2) = (\<Sum>u\<leftarrow>xs. a ^ 2 * (u - mean xs) ^ 2)"
    unfolding my unfolding ys_def map_map comp_def
    by (rule arg_cong [of _ _ sum_list]) (simp add: algebra_simps power2_eq_square)
  then have cyy: "cov ys ys = a ^ 2 * A / N"
    using cov_centered(2) [OF len] by (simp add: sum_scaled A_def N_def)
  have cxx: "cov xs xs = A / N"
    using cov_centered(1) [OF len] by (simp add: A_def N_def)
  define X where "X = A / N"
  have X: "0 < X" using pos N by (simp add: A_def X_def)
  have cxx': "cov xs xs = X" and cxy': "cov xs ys = a * X" and cyy': "cov ys ys = a ^ 2 * X"
    by (simp_all add: cxx cxy cyy X_def)
  have "sqrt (a ^ 2 * X) = a * sqrt X"
    using a by (simp add: real_sqrt_mult)
  then have "a * X / sqrt X / sqrt (a ^ 2 * X) = a * X / (a * (sqrt X * sqrt X))"
    by (simp add: field_simps)
  also have "\<dots> = a * X / (a * X)"
    using X by (simp only: real_sqrt_mult_self abs_of_pos)
  also have "\<dots> = 1" using X a by simp
  finally have q: "cov xs ys / sqrt (cov xs xs) / sqrt (cov ys ys) = 1"
    by (simp only: cxx' cxy' cyy')
  have "cov xs xs \<noteq> 0" "cov ys ys \<noteq> 0" using X a by (simp_all add: cxx' cyy')
  then show ?thesis
    using n unfolding ys_def [symmetric] corrcoef_def Let_def q by simp
qed

subsection \<open>The cell\<close>

lemma cell3_fields:
  "slope (cell3 d) = fst (polyfit1 (x_col d) (y_col d))"
  "intercept (cell3 d) = snd (polyfit1 (x_col d) (y_col d))"
  "r (cell3 d) = corrcoef (x_col d) (y_col d)"
  "y_hat (cell3 d) =
     map (\<lambda>xi. pf_add (pf_mul (slope (cell3 d)) (Finite xi)) (intercept (cell3 d))) (x_col d)"
  by (simp_all add: cell3_def Let_def split: prod.splits)

lemma sum_prod_expand:
  fixes ps :: "(real \<times> real) list"
  shows "(\<Sum>(u, v)\<leftarrow>ps. (u - m) * (v - k)) =
    (\<Sum>(u, v)\<leftarrow>ps. u * v) - k * (\<Sum>(u, v)\<leftarrow>ps. u) - m * (\<Sum>(u, v)\<leftarrow>ps. v)
    + real (length ps) * m * k"
  by (induction ps) (auto simp: algebra_simps)

lemma two_values_length:
  assumes "p \<in> set xs" and "q \<in> set xs" and "p \<noteq> q"
  shows "2 \<le> length xs"
proof (rule ccontr)
  assume "\<not> 2 \<le> length xs"
  then have "length xs = 0 \<or> length xs = 1" by arith
  then show False
  proof
    assume "length xs = 0"
    then show False using assms(1) by simp
  next
    assume "length xs = 1"
    then obtain a where "xs = [a]" by (cases xs) auto
    then show False using assms by simp
  qed
qed

lemma polyfit1_closed_form:
  assumes len: "length xs = length ys"
    and mem: "p \<in> set xs" "q \<in> set xs" "p \<noteq> q"
  shows "polyfit1 xs ys = (Finite (ols_slope xs ys), Finite (ols_intercept xs ys))"
proof -
  define Sx where "Sx = sum_list xs"
  define Sy where "Sy = sum_list ys"
  define Sxx where "Sxx = (\<Sum>u\<leftarrow>xs. u * u)"
  define Sxy where "Sxy = (\<Sum>(u, v)\<leftarrow>zip xs ys. u * v)"
  define n where "n = real (length xs)"
  define D where "D = n * Sxx - Sx * Sx"
  define C where "C = (\<Sum>u\<leftarrow>xs. (u - mean xs) ^ 2)"
  obtain s i where fit: "polyfit1 xs ys = (Finite s, Finite i)"
    using polyfit1_defined(2) [OF mem, of ys] by auto
  have D: "D \<noteq> 0" and s: "s = (n * Sxy - Sx * Sy) / D"
    using polyfit1_Finite [OF fit] by (simp_all add: D_def Sx_def Sy_def Sxx_def Sxy_def n_def)
  have ne: "xs \<noteq> []" using mem(1) by auto
  then have n: "n \<noteq> 0" by (simp add: n_def)
  have DC: "D = n * C"
    using det_centered [OF ne] by (simp add: D_def C_def n_def Sxx_def Sx_def)
  have mx: "mean xs = Sx / n" by (simp add: mean_def Sx_def n_def)
  have my: "mean ys = Sy / n" by (simp add: mean_def Sy_def n_def len)
  have "(\<Sum>(u, v)\<leftarrow>zip xs ys. (u - mean xs) * (v - mean ys)) =
      Sxy - mean ys * Sx - mean xs * Sy + n * mean xs * mean ys"
    unfolding sum_prod_expand
    using sum_zip_fst [OF len, of "\<lambda>u. u"] sum_zip_snd [OF len, of "\<lambda>v. v"] len
    by (simp add: Sxy_def Sx_def Sy_def n_def)
  also have "\<dots> = (n * Sxy - Sx * Sy) / n"
    using n by (simp add: mx my field_simps)
  finally have "ols_slope xs ys = ((n * Sxy - Sx * Sy) / n) / C"
    by (simp add: ols_slope_def C_def)
  also have "\<dots> = (n * Sxy - Sx * Sy) / (n * C)" by (simp add: divide_divide_eq_left)
  finally have slope: "ols_slope xs ys = s" by (simp add: s DC)
  have "s * Sx + i * n = Sy"
    using polyfit1_normal_equations(2) [OF fit] by (simp add: Sx_def Sy_def n_def)
  then have "i = Sy / n - s * (Sx / n)" using n by (simp add: field_simps)
  then have "ols_intercept xs ys = i" by (simp add: ols_intercept_def slope mx my)
  with slope fit show ?thesis by simp
qed

lemma corrcoef_defined:
  assumes len: "length xs = length ys"
    and mx: "p \<in> set xs" "q \<in> set xs" "p \<noteq> q"
    and my: "p' \<in> set ys" "q' \<in> set ys" "p' \<noteq> q'"
  shows "corrcoef xs ys = Finite (pearson xs ys) \<and> - 1 \<le> pearson xs ys \<and> pearson xs ys \<le> 1"
proof -
  have n2: "2 \<le> length xs" by (rule two_values_length [OF mx])
  then have N: "0 < real (length xs) - 1" by simp
  have "0 < (\<Sum>u\<leftarrow>xs. (u - mean xs) ^ 2)" by (rule centered_sq_pos [OF mx])
  then have cxx: "cov xs xs \<noteq> 0" using N by (simp add: cov_centered(1) [OF len])
  have "0 < (\<Sum>v\<leftarrow>ys. (v - mean ys) ^ 2)" by (rule centered_sq_pos [OF my])
  then have cyy: "cov ys ys \<noteq> 0" using N by (simp add: cov_centered(2) [OF len])
  obtain c where c: "corrcoef xs ys = Finite c"
    using n2 cxx cyy by (simp add: corrcoef_def Let_def)
  show ?thesis using corrcoef_pearson [OF len c] c by simp
qed

text \<open>
  Claim C5. On a dataset with as many \<open>x\<close> as \<open>y\<close> values in which two \<open>x\<close> values differ,
  the slope and the intercept of the fit cell are finite and equal the textbook closed
  form of ordinary least squares, \<open>ols_slope\<close> and \<open>ols_intercept\<close>: one formula over the
  data, evaluated once and exactly, with no iteration and no approximation. They solve
  the two normal equations of the degree-1 problem, they minimise the sum of squared
  residuals over all lines, no other line attains the minimum, and \<open>y_hat\<close> is
  \<open>slope * x + intercept\<close> pointwise. If moreover two \<open>y\<close> values differ, \<open>r\<close> is finite and
  equals the Pearson correlation coefficient of \<open>(x, y)\<close>, a formula of the data alone in
  which the fitted line does not occur, and lies in \<open>[-1, 1]\<close>. On every dataset \<open>y_hat\<close> is
  \<open>slope * x + intercept\<close> pointwise in the arithmetic of floats. Arithmetic is exact
  here: the rounding of floating-point arithmetic, and how the library evaluates the
  formula, are outside the model.
\<close>

theorem fit_is_least_squares:
  assumes "length (x_col d) = length (y_col d)"
  shows "(\<forall>p q. p \<in> set (x_col d) \<and> q \<in> set (x_col d) \<and> p \<noteq> q \<longrightarrow>
        slope (cell3 d) = Finite (ols_slope (x_col d) (y_col d))
        \<and> intercept (cell3 d) = Finite (ols_intercept (x_col d) (y_col d))
        \<and> ols_slope (x_col d) (y_col d) * (\<Sum>u\<leftarrow>x_col d. u * u)
            + ols_intercept (x_col d) (y_col d) * sum_list (x_col d) =
          (\<Sum>(u, v)\<leftarrow>zip (x_col d) (y_col d). u * v)
        \<and> ols_slope (x_col d) (y_col d) * sum_list (x_col d)
            + ols_intercept (x_col d) (y_col d) * real (length (x_col d)) = sum_list (y_col d)
        \<and> (\<forall>a b. ssr (x_col d) (y_col d) (ols_slope (x_col d) (y_col d))
                (ols_intercept (x_col d) (y_col d)) \<le> ssr (x_col d) (y_col d) a b)
        \<and> (\<forall>a b. ssr (x_col d) (y_col d) (ols_slope (x_col d) (y_col d))
                (ols_intercept (x_col d) (y_col d)) < ssr (x_col d) (y_col d) a b
              \<or> (a = ols_slope (x_col d) (y_col d) \<and> b = ols_intercept (x_col d) (y_col d)))
        \<and> y_hat (cell3 d) =
            map (\<lambda>xi. Finite (ols_slope (x_col d) (y_col d) * xi
              + ols_intercept (x_col d) (y_col d))) (x_col d))
    \<and> (\<forall>p q p' q'. p \<in> set (x_col d) \<and> q \<in> set (x_col d) \<and> p \<noteq> q
          \<and> p' \<in> set (y_col d) \<and> q' \<in> set (y_col d) \<and> p' \<noteq> q' \<longrightarrow>
        r (cell3 d) = Finite (pearson (x_col d) (y_col d))
        \<and> - 1 \<le> pearson (x_col d) (y_col d) \<and> pearson (x_col d) (y_col d) \<le> 1)
    \<and> y_hat (cell3 d) =
        map (\<lambda>xi. pf_add (pf_mul (slope (cell3 d)) (Finite xi)) (intercept (cell3 d))) (x_col d)"
proof (intro conjI allI impI)
  fix p q
  assume pq: "p \<in> set (x_col d) \<and> q \<in> set (x_col d) \<and> p \<noteq> q"
  then have fit: "polyfit1 (x_col d) (y_col d) =
      (Finite (ols_slope (x_col d) (y_col d)), Finite (ols_intercept (x_col d) (y_col d)))"
    using polyfit1_closed_form [OF assms, of p q] by simp
  show sl: "slope (cell3 d) = Finite (ols_slope (x_col d) (y_col d))"
    by (simp add: cell3_fields fit)
  show ic: "intercept (cell3 d) = Finite (ols_intercept (x_col d) (y_col d))"
    by (simp add: cell3_fields fit)
  show "ols_slope (x_col d) (y_col d) * (\<Sum>u\<leftarrow>x_col d. u * u)
      + ols_intercept (x_col d) (y_col d) * sum_list (x_col d) =
      (\<Sum>(u, v)\<leftarrow>zip (x_col d) (y_col d). u * v)"
    by (rule polyfit1_normal_equations(1) [OF fit])
  show "ols_slope (x_col d) (y_col d) * sum_list (x_col d)
      + ols_intercept (x_col d) (y_col d) * real (length (x_col d)) = sum_list (y_col d)"
    by (rule polyfit1_normal_equations(2) [OF fit])
  show "ssr (x_col d) (y_col d) (ols_slope (x_col d) (y_col d))
      (ols_intercept (x_col d) (y_col d)) \<le> ssr (x_col d) (y_col d) a b" for a b
    by (rule polyfit1_minimises [OF assms fit])
  show "ssr (x_col d) (y_col d) (ols_slope (x_col d) (y_col d))
      (ols_intercept (x_col d) (y_col d)) < ssr (x_col d) (y_col d) a b
      \<or> (a = ols_slope (x_col d) (y_col d) \<and> b = ols_intercept (x_col d) (y_col d))" for a b
    by (rule polyfit1_strict [OF assms fit])
  show "y_hat (cell3 d) =
      map (\<lambda>xi. Finite (ols_slope (x_col d) (y_col d) * xi
        + ols_intercept (x_col d) (y_col d))) (x_col d)"
    by (subst cell3_fields(4)) (simp add: sl ic)
next
  fix p q p' q'
  assume h: "p \<in> set (x_col d) \<and> q \<in> set (x_col d) \<and> p \<noteq> q
      \<and> p' \<in> set (y_col d) \<and> q' \<in> set (y_col d) \<and> p' \<noteq> q'"
  then have c: "corrcoef (x_col d) (y_col d) = Finite (pearson (x_col d) (y_col d))
      \<and> - 1 \<le> pearson (x_col d) (y_col d) \<and> pearson (x_col d) (y_col d) \<le> 1"
    using corrcoef_defined [OF assms, of p q p' q'] by simp
  show "r (cell3 d) = Finite (pearson (x_col d) (y_col d))"
    using c by (simp add: cell3_fields)
  show "- 1 \<le> pearson (x_col d) (y_col d)" "pearson (x_col d) (y_col d) \<le> 1"
    using c by simp_all
next
  show "y_hat (cell3 d) =
      map (\<lambda>xi. pf_add (pf_mul (slope (cell3 d)) (Finite xi)) (intercept (cell3 d))) (x_col d)"
    by (rule cell3_fields(4))
qed

text \<open>
  The theorem on the three points \<open>(0, 1), (1, 3), (2, 2)\<close>: the fitted line is
  \<open>y = 0.5 x + 1.5\<close>, no other line does as well, and \<open>r = 0.5\<close>.
\<close>

theorem fit_is_least_squares_witness:
  "length (x_col \<lparr>x_col = [0, 1, 2], y_col = [1, 3, 2]\<rparr>) =
     length (y_col \<lparr>x_col = [0, 1, 2], y_col = [1, 3, 2]\<rparr>)
   \<and> (0::real) \<in> set [0, 1, 2] \<and> (1::real) \<in> set [0, 1, 2] \<and> (0::real) \<noteq> 1
   \<and> (1::real) \<in> set [1, 3, 2] \<and> (3::real) \<in> set [1, 3, 2] \<and> (1::real) \<noteq> 3
   \<and> ols_slope [0, 1, 2] [1, 3, 2] = 1 / 2
   \<and> ols_intercept [0, 1, 2] [1, 3, 2] = 3 / 2
   \<and> pearson [0, 1, 2] [1, 3, 2] = 1 / 2
   \<and> slope (cell3 \<lparr>x_col = [0, 1, 2], y_col = [1, 3, 2]\<rparr>) = Finite (1 / 2)
   \<and> intercept (cell3 \<lparr>x_col = [0, 1, 2], y_col = [1, 3, 2]\<rparr>) = Finite (3 / 2)
   \<and> r (cell3 \<lparr>x_col = [0, 1, 2], y_col = [1, 3, 2]\<rparr>) = Finite (1 / 2)
   \<and> (\<forall>a b. ssr [0, 1, 2] [1, 3, 2] (1 / 2) (3 / 2) \<le> ssr [0, 1, 2] [1, 3, 2] a b)
   \<and> ssr [0, 1, 2] [1, 3, 2] (1 / 2) (3 / 2) < ssr [0, 1, 2] [1, 3, 2] 1 1
   \<and> y_hat (cell3 \<lparr>x_col = [0, 1, 2], y_col = [1, 3, 2]\<rparr>) =
       [Finite (3 / 2), Finite 2, Finite (5 / 2)]"
proof -
  define d where "d = \<lparr>x_col = [0, 1, 2], y_col = [1, 3, 2 :: real]\<rparr>"
  have h1: "length (x_col d) = length (y_col d)" by (simp add: d_def)
  have hx: "0 \<in> set (x_col d) \<and> 1 \<in> set (x_col d) \<and> (0::real) \<noteq> 1" by (simp add: d_def)
  have hy: "1 \<in> set (y_col d) \<and> 3 \<in> set (y_col d) \<and> (1::real) \<noteq> 3" by (simp add: d_def)
  have os: "ols_slope (x_col d) (y_col d) = 1 / 2"
    by (simp add: d_def ols_slope_def mean_def)
  have oi: "ols_intercept (x_col d) (y_col d) = 3 / 2"
    by (simp add: ols_intercept_def os) (simp add: d_def mean_def)
  have pe: "pearson (x_col d) (y_col d) = 1 / 2"
    by (simp add: d_def pearson_def mean_def)
  note t = fit_is_least_squares [OF h1]
  have t1: "slope (cell3 d) = Finite (1 / 2) \<and> intercept (cell3 d) = Finite (3 / 2)
      \<and> (\<forall>a b. ssr (x_col d) (y_col d) (1 / 2) (3 / 2) \<le> ssr (x_col d) (y_col d) a b)
      \<and> (\<forall>a b. ssr (x_col d) (y_col d) (1 / 2) (3 / 2) < ssr (x_col d) (y_col d) a b
            \<or> (a = 1 / 2 \<and> b = 3 / 2))
      \<and> y_hat (cell3 d) = map (\<lambda>xi. Finite (1 / 2 * xi + 3 / 2)) (x_col d)"
    using t hx unfolding os oi by blast
  have t2: "r (cell3 d) = Finite (1 / 2)"
    using t hx hy unfolding pe by blast
  have "ssr (x_col d) (y_col d) (1 / 2) (3 / 2) < ssr (x_col d) (y_col d) 1 1
      \<or> ((1::real) = 1 / 2 \<and> (1::real) = 3 / 2)"
    using t1 by blast
  then have st: "ssr [0, 1, 2] [1, 3, 2] (1 / 2) (3 / 2) < ssr [0, 1, 2] [1, 3, 2] 1 1"
    unfolding d_def by simp
  have m: "\<forall>a b. ssr [0, 1, 2] [1, 3, 2] (1 / 2) (3 / 2) \<le> ssr [0, 1, 2] [1, 3, 2] a b"
    using t1 unfolding d_def by simp
  have yh: "y_hat (cell3 d) = [Finite (3 / 2), Finite 2, Finite (5 / 2)]"
    using t1 by (simp add: d_def)
  have s1: "slope (cell3 d) = Finite (1 / 2)" and i1: "intercept (cell3 d) = Finite (3 / 2)"
    using t1 by simp_all
  have e1: "ols_slope [0, 1, 2] [1, 3, 2] = 1 / 2" using os by (simp add: d_def)
  have e2: "ols_intercept [0, 1, 2] [1, 3, 2] = 3 / 2" using oi by (simp add: d_def)
  have e3: "pearson [0, 1, 2] [1, 3, 2] = 1 / 2" using pe by (simp add: d_def)
  have mem: "(0::real) \<in> set [0, 1, 2]" "(1::real) \<in> set [0, 1, 2]" "(0::real) \<noteq> 1"
    "(1::real) \<in> set [1, 3, 2]" "(3::real) \<in> set [1, 3, 2]" "(1::real) \<noteq> 3"
    by simp_all
  show ?thesis
    using h1 s1 i1 t2 m st yh unfolding d_def
    by (intro conjI mem e1 e2 e3)
qed

text \<open>
  Without noise the data lie on the line \<open>y = 2.5 x + 5\<close> and, in exact arithmetic, the
  fit recovers the line and \<open>r = 1\<close>. By how much a float64 computation misses these values
  is a question of rounding, which the model of floats does not have.
\<close>

lemma noise_free_fit_general:
  assumes "2 \<le> nv"
  shows "\<exists>d. cell2 Z nv 0 = Inr d
    \<and> y_col d = map (\<lambda>u. 5 / 2 * u + 5) (x_col d)
    \<and> slope (cell3 d) = Finite (5 / 2) \<and> intercept (cell3 d) = Finite 5
    \<and> r (cell3 d) = Finite 1"
proof -
  obtain xs where xs: "linspace 0 10 nv = Inr xs" and len: "length xs = nat nv"
    using linspace_Inr [of nv 0 10] assms by auto
  have mem: "0 \<in> set xs" "10 \<in> set xs"
    using linspace_two_values [OF xs assms] by simp_all
  have det: "real (length xs) * (\<Sum>u\<leftarrow>xs. u * u) - sum_list xs * sum_list xs \<noteq> 0"
    by (rule polyfit1_defined(1) [OF mem]) simp
  have pos: "0 < (\<Sum>u\<leftarrow>xs. (u - mean xs) ^ 2)"
    by (rule centered_sq_pos [OF mem]) simp
  have n2: "2 \<le> length xs" using len assms by simp
  have "polyfit1 xs (map (\<lambda>u. 5 / 2 * u + 5) xs) = (Finite (5 / 2), Finite 5)"
    by (rule polyfit1_exact_line [OF det])
  moreover have "corrcoef xs (map (\<lambda>u. 5 / 2 * u + 5) xs) = Finite 1"
    by (rule corrcoef_exact_line [OF n2 pos]) simp
  ultimately show ?thesis
    by (simp add: cell2_noise_free [OF xs] cell3_fields)
qed

text \<open>
  For every slider-reachable pair the \<open>x\<close> values contain 0 and 10, so their variance
  is not zero and slope and intercept are finite numbers.
\<close>

lemma reachable_fit_defined:
  assumes "n_reachable nv" and "sigma_reachable sv"
  shows "\<exists>d s i. cell2 Z nv sv = Inr d \<and> 0 \<in> set (x_col d) \<and> 10 \<in> set (x_col d)
    \<and> 0 < (\<Sum>u\<leftarrow>x_col d. (u - mean (x_col d)) ^ 2)
    \<and> slope (cell3 d) = Finite s \<and> intercept (cell3 d) = Finite i"
proof -
  have nv: "2 \<le> nv" and sv: "0 \<le> sv"
    using reachable_bounds(1) [OF assms(1)] reachable_bounds(2) [OF assms(2)] by simp_all
  obtain xs where xs: "linspace 0 10 nv = Inr xs"
    using linspace_Inr [of nv 0 10] nv by auto
  have mem: "0 \<in> set xs" "10 \<in> set xs"
    using linspace_two_values [OF xs nv] by simp_all
  have pos: "0 < (\<Sum>u\<leftarrow>xs. (u - mean xs) ^ 2)"
    by (rule centered_sq_pos [OF mem]) simp
  obtain ys where d: "cell2 Z nv sv = Inr \<lparr>x_col = xs, y_col = ys\<rparr>"
    by (simp add: cell2_def cell2_body_Inr [OF xs sv])
  obtain s i where "polyfit1 xs ys = (Finite s, Finite i)"
    using polyfit1_defined(2) [OF mem, of ys] by auto
  then show ?thesis
    using d mem pos by (simp add: cell3_fields)
qed

section \<open>Properties of the report cell\<close>

subsection \<open>Formatted numbers\<close>

lemma digit_char_is_digit: "d < 10 \<Longrightarrow> is_digit (digit_char d)"
  unfolding is_digit_def digit_char_def by (rule nth_mem) simp

lemma str_nat_digits: "list_all is_digit (str_nat k) \<and> str_nat k \<noteq> []"
proof (induction k rule: str_nat.induct)
  case (1 k)
  show ?case
  proof (cases "k < 10")
    case True
    then show ?thesis by (subst (1 2) str_nat.simps) (simp add: digit_char_is_digit)
  next
    case False
    with 1 show ?thesis
      by (subst (1 2) str_nat.simps) (simp add: digit_char_is_digit)
  qed
qed

lemma str_nat_length: "0 < p \<Longrightarrow> k < 10 ^ p \<Longrightarrow> length (str_nat k) \<le> p"
proof (induction k arbitrary: p rule: str_nat.induct)
  case (1 k)
  show ?case
  proof (cases "k < 10")
    case True
    then show ?thesis using 1(2) by (subst str_nat.simps) simp
  next
    case False
    obtain p' where p: "p = Suc p'" using 1(2) by (cases p) auto
    have "p' \<noteq> 0" using False 1(3) p by (cases p') auto
    moreover have "k div 10 < 10 ^ p'" using 1(3) p by (simp add: less_mult_imp_div_less mult.commute)
    ultimately have "length (str_nat (k div 10)) \<le> p'" using 1(1) [OF False, of p'] by simp
    then show ?thesis using False p by (subst str_nat.simps) simp
  qed
qed

lemma zfill_fraction:
  assumes "0 < p"
  shows "length (zfill p (str_nat (q mod 10 ^ p))) = p
    \<and> list_all is_digit (zfill p (str_nat (q mod 10 ^ p)))"
proof -
  have "q mod 10 ^ p < (10::nat) ^ p" by simp
  then have "length (str_nat (q mod 10 ^ p)) \<le> p" by (rule str_nat_length [OF assms])
  moreover have "is_digit CHR ''0''" by (simp add: is_digit_def)
  ultimately show ?thesis
    using str_nat_digits [of "q mod 10 ^ p"]
    by (auto simp: zfill_def list_all_iff)
qed

lemma not_digit: "\<not> is_digit CHR ''.''" "\<not> is_digit CHR ''-''"
  by (simp_all add: is_digit_def)

lemma fixed_point_pieces:
  assumes "list_all is_digit ip" and "ip \<noteq> []" and "list_all is_digit fp" and "length fp = p"
  shows "fixed_point p (ip @ ''.'' @ fp)" and "fixed_point p (''-'' @ ip @ ''.'' @ fp)"
proof -
  have tw: "takeWhile is_digit (ip @ CHR ''.'' # fp) = ip"
    using assms(1) by (simp add: takeWhile_append2 list_all_iff not_digit)
  have dw: "dropWhile is_digit (ip @ CHR ''.'' # fp) = CHR ''.'' # fp"
    using assms(1) by (simp add: dropWhile_append2 list_all_iff not_digit)
  obtain c t where ip: "ip = c # t" using assms(2) by (cases ip) auto
  have c: "c \<noteq> CHR ''-''" using assms(1) not_digit(2) by (auto simp: ip)
  show "fixed_point p (''-'' @ ip @ ''.'' @ fp)"
    using assms tw dw by (simp add: fixed_point_def)
  have "fixed_point p ((c # t) @ ''.'' @ fp)"
    using assms tw dw c unfolding ip by (simp add: fixed_point_def)
  then show "fixed_point p (ip @ ''.'' @ fp)" by (simp only: ip)
qed

lemma format_f_fixed_point:
  assumes "0 < p"
  shows "fixed_point p (format_f p (Finite v))"
proof -
  define q where "q = nat (round_half_even (\<bar>v\<bar> * 10 ^ p))"
  have fp: "length (zfill p (str_nat (q mod 10 ^ p))) = p"
    "list_all is_digit (zfill p (str_nat (q mod 10 ^ p)))"
    using zfill_fraction [OF assms, of q] by simp_all
  have ip: "list_all is_digit (str_nat (q div 10 ^ p))" "str_nat (q div 10 ^ p) \<noteq> []"
    using str_nat_digits by simp_all
  note fx = fixed_point_pieces [OF ip fp(2) fp(1)]
  show ?thesis
    using assms fx by (simp add: Let_def q_def [symmetric])
qed

lemma round_half_even_error: "\<bar>real_of_int (round_half_even v) - v\<bar> \<le> 1 / 2"
  unfolding round_half_even_def Let_def by (auto simp: abs_if) linarith+

lemma digit_val_digit_char: "d < 10 \<Longrightarrow> digit_val (digit_char d) = d"
proof -
  assume "d < 10"
  then have "d \<in> {0, 1, 2, 3, 4, 5, 6, 7, 8, 9}" by auto
  then show ?thesis by (auto simp: digit_val_def digit_char_def)
qed

lemma read_nat_snoc: "read_nat (s @ [ch]) = 10 * read_nat s + digit_val ch"
  by (simp add: read_nat_def)

lemma read_nat_str_nat: "read_nat (str_nat k) = k"
proof (induction k rule: str_nat.induct)
  case (1 k)
  show ?case
  proof (cases "k < 10")
    case True
    then show ?thesis
      by (subst str_nat.simps) (simp add: read_nat_def digit_val_digit_char)
  next
    case False
    then show ?thesis
      using 1 by (subst str_nat.simps) (simp add: read_nat_snoc digit_val_digit_char)
  qed
qed

lemma read_nat_zeros: "read_nat (replicate k CHR ''0'' @ s) = read_nat s"
proof -
  have "foldl (\<lambda>a ch. 10 * a + digit_val ch) 0 (replicate k CHR ''0'') = 0"
    by (induction k) (simp_all add: digit_val_def)
  then show ?thesis by (simp add: read_nat_def)
qed

lemma round_half_even_nonneg: "0 \<le> v \<Longrightarrow> 0 \<le> round_half_even v"
  by (auto simp: round_half_even_def Let_def)

lemma read_fixed_pieces:
  assumes "list_all is_digit ip" and "ip \<noteq> []"
  shows "read_fixed (ip @ ''.'' @ fp) = real (read_nat ip) + real (read_nat fp) / 10 ^ length fp"
    and "read_fixed (''-'' @ ip @ ''.'' @ fp) =
      - (real (read_nat ip) + real (read_nat fp) / 10 ^ length fp)"
proof -
  have tw: "takeWhile is_digit (ip @ CHR ''.'' # fp) = ip"
    using assms(1) by (simp add: takeWhile_append2 list_all_iff not_digit)
  have dw: "dropWhile is_digit (ip @ CHR ''.'' # fp) = CHR ''.'' # fp"
    using assms(1) by (simp add: dropWhile_append2 list_all_iff not_digit)
  obtain c t where ip: "ip = c # t" using assms(2) by (cases ip) auto
  have c: "c \<noteq> CHR ''-''" using assms(1) not_digit(2) by (auto simp: ip)
  show "read_fixed (''-'' @ ip @ ''.'' @ fp) =
      - (real (read_nat ip) + real (read_nat fp) / 10 ^ length fp)"
    using tw dw by (simp add: read_fixed_def)
  have "read_fixed ((c # t) @ ''.'' @ fp) =
      real (read_nat (c # t)) + real (read_nat fp) / 10 ^ length fp"
    using tw dw c unfolding ip by (simp add: read_fixed_def)
  then show "read_fixed (ip @ ''.'' @ fp) =
      real (read_nat ip) + real (read_nat fp) / 10 ^ length fp"
    by (simp only: ip)
qed

lemma format_f_value:
  assumes "0 < p"
  shows "\<bar>read_fixed (format_f p (Finite v)) - v\<bar> \<le> 1 / (2 * 10 ^ p)"
proof -
  define q where "q = nat (round_half_even (\<bar>v\<bar> * 10 ^ p))"
  define ip where "ip = str_nat (q div 10 ^ p)"
  define fp where "fp = zfill p (str_nat (q mod 10 ^ p))"
  have ipd: "list_all is_digit ip" "ip \<noteq> []" using str_nat_digits by (simp_all add: ip_def)
  have fpl: "length fp = p" using zfill_fraction [OF assms, of q] by (simp add: fp_def)
  have rip: "read_nat ip = q div 10 ^ p" by (simp add: ip_def read_nat_str_nat)
  have rfp: "read_nat fp = q mod 10 ^ p"
    by (simp add: fp_def zfill_def read_nat_zeros read_nat_str_nat)
  have "real (q div 10 ^ p) + real (q mod 10 ^ p) / 10 ^ p =
      (real (q div 10 ^ p) * 10 ^ p + real (q mod 10 ^ p)) / 10 ^ p"
    by (simp add: field_simps)
  also have "real (q div 10 ^ p) * 10 ^ p + real (q mod 10 ^ p) = real q"
  proof -
    have "real ((q div 10 ^ p) * 10 ^ p + q mod 10 ^ p) = real q"
      by (simp only: div_mult_mod_eq)
    then show ?thesis by simp
  qed
  finally have val: "real (read_nat ip) + real (read_nat fp) / 10 ^ length fp = real q / 10 ^ p"
    by (simp add: rip rfp fpl)
  have "0 \<le> round_half_even (\<bar>v\<bar> * 10 ^ p)" by (rule round_half_even_nonneg) simp
  then have "real q = real_of_int (round_half_even (\<bar>v\<bar> * 10 ^ p))" by (simp add: q_def)
  then have "\<bar>real q - \<bar>v\<bar> * 10 ^ p\<bar> \<le> 1 / 2"
    using round_half_even_error [of "\<bar>v\<bar> * 10 ^ p"] by simp
  then have "\<bar>real q - \<bar>v\<bar> * 10 ^ p\<bar> / 10 ^ p \<le> (1 / 2) / 10 ^ p"
    by (intro divide_right_mono) simp_all
  moreover have "\<bar>real q - \<bar>v\<bar> * 10 ^ p\<bar> / 10 ^ p = \<bar>real q / 10 ^ p - \<bar>v\<bar>\<bar>"
  proof -
    have "real q / 10 ^ p - \<bar>v\<bar> = (real q - \<bar>v\<bar> * 10 ^ p) / 10 ^ p"
      by (simp add: field_simps)
    then show ?thesis by (simp add: abs_divide)
  qed
  ultimately have err: "\<bar>real q / 10 ^ p - \<bar>v\<bar>\<bar> \<le> 1 / (2 * 10 ^ p)" by simp
  have fmt: "format_f p (Finite v) = (if v < 0 then ''-'' else []) @ ip @ ''.'' @ fp"
    using assms by (simp add: Let_def q_def ip_def fp_def)
  show ?thesis
  proof (cases "v < 0")
    case True
    then have "format_f p (Finite v) = ''-'' @ ip @ ''.'' @ fp"
      by (simp only: fmt if_True)
    then have "read_fixed (format_f p (Finite v)) = - (real q / 10 ^ p)"
      using read_fixed_pieces(2) [OF ipd, of fp] val by (simp only:)
    then show ?thesis using err True by simp
  next
    case False
    then have "format_f p (Finite v) = ip @ ''.'' @ fp"
      by (simp only: fmt if_False append_Nil)
    then have "read_fixed (format_f p (Finite v)) = real q / 10 ^ p"
      using read_fixed_pieces(1) [OF ipd, of fp] val by (simp only:)
    then show ?thesis using err False by simp
  qed
qed

lemma str_int_integer_text: "integer_text (str_int i)"
proof (cases "i < 0")
  case True
  then show ?thesis
    using str_nat_digits [of "nat (- i)"] by (simp add: integer_text_def str_int_def)
next
  case False
  obtain c t where ct: "str_nat (nat i) = c # t"
    using str_nat_digits [of "nat i"] by (cases "str_nat (nat i)") auto
  have "c \<noteq> CHR ''-''"
    using str_nat_digits [of "nat i"] not_digit(2) by (auto simp: ct)
  then show ?thesis
    using False str_nat_digits [of "nat i"] by (simp add: integer_text_def str_int_def ct)
qed

lemma read_int_str_int: "read_int (str_int i) = i"
proof (cases "i < 0")
  case True
  then show ?thesis by (simp add: read_int_def str_int_def read_nat_str_nat)
next
  case False
  obtain c t where ct: "str_nat (nat i) = c # t"
    using str_nat_digits [of "nat i"] by (cases "str_nat (nat i)") auto
  have "c \<noteq> CHR ''-''"
    using str_nat_digits [of "nat i"] not_digit(2) by (auto simp: ct)
  moreover have "read_nat (c # t) = nat i"
    using read_nat_str_nat [of "nat i"] by (simp only: ct)
  ultimately show ?thesis using False by (simp add: read_int_def str_int_def ct)
qed

lemma str_int_300: "str_int 300 = ''300''"
  by (simp add: str_int_def str_nat.simps digit_char_def)

lemma format_one: "format_f 1 (Finite 1) = ''1.0''"
  by (simp add: round_half_even_def Let_def zfill_def str_nat.simps digit_char_def)

subsection \<open>The text\<close>

lemma sublist_inner: "sublist (a @ b @ c) t \<Longrightarrow> sublist b t"
proof -
  assume "sublist (a @ b @ c) t"
  then obtain ps ss where "t = ps @ (a @ b @ c) @ ss" unfolding sublist_def by blast
  then have "t = (ps @ a) @ b @ (c @ ss)" by simp
  then show "sublist b t" unfolding sublist_def by blast
qed

lemma sublist_drop_prefix: "sublist (a @ b) t \<Longrightarrow> sublist b t"
  using sublist_inner [of a b "[]" t] by simp

lemma cell4_sublists:
  "sublist (''$y = '' @ format_f 2 slp @ ''x + '' @ format_f 2 icpt @ ''$'') (cell4 icpt ns c ss slp)"
  "sublist (''$r = '' @ format_f 3 c @ ''$'') (cell4 icpt ns c ss slp)"
  "sublist (''**Sample size**: **'' @ str_int (slider_value ns) @ ''**'') (cell4 icpt ns c ss slp)"
  "sublist (''**Noise std ('' @ sigma_char @ '')**: **'' @
      format_f 1 (Finite (slider_value ss)) @ ''**'') (cell4 icpt ns c ss slp)"
proof -
  show "sublist (''$y = '' @ format_f 2 slp @ ''x + '' @ format_f 2 icpt @ ''$'') (cell4 icpt ns c ss slp)"
    unfolding sublist_def cell4_def
    by (rule exI [of _ "nl @ ''### Relationship summary'' @ nl @ ''- **Model**: ''"], rule exI) simp
  show "sublist (''$r = '' @ format_f 3 c @ ''$'') (cell4 icpt ns c ss slp)"
    unfolding sublist_def cell4_def
    by (rule exI [of _ "nl @ ''### Relationship summary'' @ nl @
        ''- **Model**: $y = '' @ format_f 2 slp @ ''x + '' @ format_f 2 icpt @ ''$'' @ nl @
        ''- **Correlation**: ''"], rule exI) simp
  show "sublist (''**Sample size**: **'' @ str_int (slider_value ns) @ ''**'') (cell4 icpt ns c ss slp)"
    unfolding sublist_def cell4_def
    by (rule exI [of _ "nl @ ''### Relationship summary'' @ nl @
        ''- **Model**: $y = '' @ format_f 2 slp @ ''x + '' @ format_f 2 icpt @ ''$'' @ nl @
        ''- **Correlation**: $r = '' @ format_f 3 c @ ''$'' @ nl @ ''- ''"], rule exI) simp
  show "sublist (''**Noise std ('' @ sigma_char @ '')**: **'' @
      format_f 1 (Finite (slider_value ss)) @ ''**'') (cell4 icpt ns c ss slp)"
    unfolding sublist_def cell4_def
    by (rule exI [of _ "nl @ ''### Relationship summary'' @ nl @
        ''- **Model**: $y = '' @ format_f 2 slp @ ''x + '' @ format_f 2 icpt @ ''$'' @ nl @
        ''- **Correlation**: $r = '' @ format_f 3 c @ ''$'' @ nl @
        ''- **Sample size**: **'' @ str_int (slider_value ns) @ ''**'' @ nl @ ''- ''"], rule exI) simp
qed

lemma cell4_example:
  assumes "slider_value ns = 300" and "slider_value ss = 1"
  shows "sublist ''Sample size**: **300'' (cell4 icpt ns c ss slp)"
    and "sublist (sigma_char @ '')**: **1.0**'') (cell4 icpt ns c ss slp)"
proof -
  have e1: "''**Sample size**: **'' @ str_int (slider_value ns) @ ''**'' =
      ''**'' @ ''Sample size**: **300'' @ ''**''"
    by (simp add: assms str_int_300)
  have "sublist (''**'' @ ''Sample size**: **300'' @ ''**'') (cell4 icpt ns c ss slp)"
    using cell4_sublists(3) [of ns icpt c ss slp] unfolding e1 .
  then show "sublist ''Sample size**: **300'' (cell4 icpt ns c ss slp)"
    by (rule sublist_inner)
  have f1: "format_f 1 (Finite (slider_value ss)) = ''1.0''"
    by (simp only: assms format_one)
  have e2: "''**Noise std ('' @ sigma_char @ '')**: **'' @
      format_f 1 (Finite (slider_value ss)) @ ''**'' =
      ''**Noise std ('' @ (sigma_char @ '')**: **1.0**'')"
    unfolding f1 by simp
  have "sublist (''**Noise std ('' @ (sigma_char @ '')**: **1.0**''))
      (cell4 icpt ns c ss slp)"
    using cell4_sublists(4) [of ss icpt ns c slp] unfolding e2 .
  then show "sublist (sigma_char @ '')**: **1.0**'') (cell4 icpt ns c ss slp)"
    by (rule sublist_drop_prefix)
qed

text \<open>
  Claim C6. For every input \<open>(sigma, n, slope, intercept, r)\<close> the report text holds, each
  in its place, the slope and the intercept formatted with \<open>.2f\<close>, \<open>r\<close> with \<open>.3f\<close>, \<open>n\<close>
  with \<open>str\<close> and \<open>sigma\<close> with \<open>.1f\<close>. The text of \<open>n\<close> is an integer text that reads back
  as \<open>n\<close>; the text of \<open>sigma\<close> has exactly 1 decimal; for a slope and an intercept that
  are numbers the texts have exactly 2 decimals, and for an \<open>r\<close> that is a number exactly
  3; each printed decimal is within half a unit of its last place of the value. For
  \<open>n = 300\<close> and \<open>sigma = 1.0\<close> the text contains \<open>Sample size**: **300\<close> and, after the
  letter sigma, \<open>)**: **1.0**\<close>, whatever the three other values are.
\<close>

theorem report_formats_values:
  "sublist (''$y = '' @ format_f 2 slp @ ''x + '' @ format_f 2 icpt @ ''$'')
     (cell4 icpt ns c ss slp)
   \<and> sublist (''$r = '' @ format_f 3 c @ ''$'') (cell4 icpt ns c ss slp)
   \<and> sublist (''**Sample size**: **'' @ str_int (slider_value ns) @ ''**'')
       (cell4 icpt ns c ss slp)
   \<and> sublist (''**Noise std ('' @ sigma_char @ '')**: **'' @
        format_f 1 (Finite (slider_value ss)) @ ''**'') (cell4 icpt ns c ss slp)
   \<and> integer_text (str_int (slider_value ns))
   \<and> read_int (str_int (slider_value ns)) = slider_value ns
   \<and> fixed_point 1 (format_f 1 (Finite (slider_value ss)))
   \<and> \<bar>read_fixed (format_f 1 (Finite (slider_value ss))) - slider_value ss\<bar>
       \<le> 1 / (2 * 10 ^ 1)
   \<and> (slp = Finite s \<longrightarrow>
        fixed_point 2 (format_f 2 slp)
        \<and> \<bar>read_fixed (format_f 2 slp) - s\<bar> \<le> 1 / (2 * 10 ^ 2))
   \<and> (icpt = Finite i \<longrightarrow>
        fixed_point 2 (format_f 2 icpt)
        \<and> \<bar>read_fixed (format_f 2 icpt) - i\<bar> \<le> 1 / (2 * 10 ^ 2))
   \<and> (c = Finite v \<longrightarrow>
        fixed_point 3 (format_f 3 c)
        \<and> \<bar>read_fixed (format_f 3 c) - v\<bar> \<le> 1 / (2 * 10 ^ 3))
   \<and> (slider_value ns = 300 \<and> slider_value ss = 1 \<longrightarrow>
        sublist ''Sample size**: **300'' (cell4 icpt ns c ss slp)
        \<and> sublist (sigma_char @ '')**: **1.0**'') (cell4 icpt ns c ss slp))"
proof (intro conjI impI)
  show "slider_value ns = 300 \<and> slider_value ss = 1 \<Longrightarrow>
      sublist ''Sample size**: **300'' (cell4 icpt ns c ss slp)"
    by (rule cell4_example(1)) simp_all
  show "slider_value ns = 300 \<and> slider_value ss = 1 \<Longrightarrow>
      sublist (sigma_char @ '')**: **1.0**'') (cell4 icpt ns c ss slp)"
    by (rule cell4_example(2)) simp_all
  show "slp = Finite s \<Longrightarrow> fixed_point 2 (format_f 2 slp)"
    by (erule ssubst) (rule format_f_fixed_point [OF zero_less_numeral])
  show "slp = Finite s \<Longrightarrow> \<bar>read_fixed (format_f 2 slp) - s\<bar> \<le> 1 / (2 * 10 ^ 2)"
    by (erule ssubst) (rule format_f_value [OF zero_less_numeral])
  show "icpt = Finite i \<Longrightarrow> fixed_point 2 (format_f 2 icpt)"
    by (erule ssubst) (rule format_f_fixed_point [OF zero_less_numeral])
  show "icpt = Finite i \<Longrightarrow> \<bar>read_fixed (format_f 2 icpt) - i\<bar> \<le> 1 / (2 * 10 ^ 2)"
    by (erule ssubst) (rule format_f_value [OF zero_less_numeral])
  show "c = Finite v \<Longrightarrow> fixed_point 3 (format_f 3 c)"
    by (erule ssubst) (rule format_f_fixed_point [OF zero_less_numeral])
  show "c = Finite v \<Longrightarrow> \<bar>read_fixed (format_f 3 c) - v\<bar> \<le> 1 / (2 * 10 ^ 3)"
    by (erule ssubst) (rule format_f_value [OF zero_less_numeral])
qed (rule cell4_sublists str_int_integer_text read_int_str_int
    format_f_fixed_point [OF zero_less_one] format_f_value [OF zero_less_one])+

text \<open>
  The theorem at the default sliders, with the whole text for slope 2.5, intercept 5 and
  \<open>r = 1\<close>.
\<close>

theorem report_formats_values_witness:
  "slider_value n_slider = 300 \<and> slider_value sigma_slider = 1
   \<and> sublist ''Sample size**: **300''
       (cell4 (Finite 5) n_slider (Finite 1) sigma_slider (Finite (5 / 2)))
   \<and> sublist (sigma_char @ '')**: **1.0**'')
       (cell4 (Finite 5) n_slider (Finite 1) sigma_slider (Finite (5 / 2)))
   \<and> fixed_point 2 (format_f 2 (Finite (5 / 2)))
   \<and> fixed_point 2 (format_f 2 (Finite 5))
   \<and> fixed_point 3 (format_f 3 (Finite 1))
   \<and> format_f 2 (Finite (5 / 2)) = ''2.50''
   \<and> format_f 2 (Finite 5) = ''5.00''
   \<and> format_f 3 (Finite 1) = ''1.000''
   \<and> cell4 (Finite 5) n_slider (Finite 1) sigma_slider (Finite (5 / 2)) =
       nl @ ''### Relationship summary'' @ nl @
       ''- **Model**: $y = 2.50x + 5.00$'' @ nl @
       ''- **Correlation**: $r = 1.000$'' @ nl @
       ''- **Sample size**: **300**'' @ nl @
       ''- **Noise std ('' @ sigma_char @ '')**: **1.0**'' @ nl @
       nl @
       ''_As '' @ sigma_char @ '' increases, the points spread further from the line; '' @
       ''correlation and the stability of the fitted slope typically decrease._'' @ nl"
proof -
  have a: "slider_value n_slider = 300" by (simp add: n_slider_def)
  have b: "slider_value sigma_slider = 1" by (simp add: sigma_slider_def)
  have f1: "format_f 2 (Finite (5 / 2)) = ''2.50''"
    by (simp add: round_half_even_def Let_def zfill_def str_nat.simps digit_char_def
        numeral_2_eq_2)
  have f2: "format_f 2 (Finite 5) = ''5.00''"
    by (simp add: round_half_even_def Let_def zfill_def str_nat.simps digit_char_def
        numeral_2_eq_2)
  have f3: "format_f 3 (Finite 1) = ''1.000''"
    by (simp add: round_half_even_def Let_def zfill_def str_nat.simps digit_char_def
        numeral_3_eq_3)
  have c: "cell4 (Finite 5) n_slider (Finite 1) sigma_slider (Finite (5 / 2)) =
       nl @ ''### Relationship summary'' @ nl @
       ''- **Model**: $y = 2.50x + 5.00$'' @ nl @
       ''- **Correlation**: $r = 1.000$'' @ nl @
       ''- **Sample size**: **300**'' @ nl @
       ''- **Noise std ('' @ sigma_char @ '')**: **1.0**'' @ nl @
       nl @
       ''_As '' @ sigma_char @ '' increases, the points spread further from the line; '' @
       ''correlation and the stability of the fitted slope typically decrease._'' @ nl"
    by (simp add: cell4_def n_slider_def sigma_slider_def round_half_even_def Let_def
        zfill_def str_int_def str_nat.simps digit_char_def numeral_2_eq_2)
  note t = report_formats_values [of "Finite (5 / 2)" "Finite 5" n_slider "Finite 1"
      sigma_slider "5 / 2" 5 1]
  note t8 = t [THEN conjunct2, THEN conjunct2, THEN conjunct2, THEN conjunct2,
      THEN conjunct2, THEN conjunct2, THEN conjunct2, THEN conjunct2]
  have g1: "fixed_point 2 (format_f 2 (Finite (5 / 2)))"
    using t8 [THEN conjunct1, THEN mp, OF refl] by (rule conjunct1)
  have g2: "fixed_point 2 (format_f 2 (Finite 5))"
    using t8 [THEN conjunct2, THEN conjunct1, THEN mp, OF refl] by (rule conjunct1)
  have g3: "fixed_point 3 (format_f 3 (Finite 1))"
    using t8 [THEN conjunct2, THEN conjunct2, THEN conjunct1, THEN mp, OF refl]
    by (rule conjunct1)
  have xy: "sublist ''Sample size**: **300''
          (cell4 (Finite 5) n_slider (Finite 1) sigma_slider (Finite (5 / 2)))
        \<and> sublist (sigma_char @ '')**: **1.0**'')
            (cell4 (Finite 5) n_slider (Finite 1) sigma_slider (Finite (5 / 2)))"
    by (rule t8 [THEN conjunct2, THEN conjunct2, THEN conjunct2, THEN mp])
      (rule conjI [OF a b])
  show ?thesis
    by (intro conjI a b c f1 f2 f3 g1 g2 g3 xy [THEN conjunct1] xy [THEN conjunct2])
qed

section \<open>Properties of the chart cell\<close>

text \<open>
  Claim C8. The chart has exactly two series: the observed points \<open>(x, y)\<close> drawn as
  markers and the fitted values \<open>(x, y_hat)\<close> drawn as a line. It has a title, both axes are
  labelled, and the legend is horizontal, its bottom right corner anchored at the right
  edge just above the plot (\<open>x = 1\<close>, \<open>y = 1.02\<close>).
\<close>

theorem chart_spec:
  "traces (cell5 d yh) =
     [\<lparr>trace_x = x_col d, trace_y = map Finite (y_col d), mode = ''markers'',
        name = ''observations''\<rparr>,
      \<lparr>trace_x = x_col d, trace_y = yh, mode = ''lines'', name = ''fit''\<rparr>]
   \<and> length (traces (cell5 d yh)) = 2
   \<and> title (fig_layout (cell5 d yh)) = Some ''Linear relationship with controllable noise''
   \<and> xaxis_title (fig_layout (cell5 d yh)) = Some ''x''
   \<and> yaxis_title (fig_layout (cell5 d yh)) = Some ''y''
   \<and> legend (fig_layout (cell5 d yh)) =
       Some \<lparr>orientation = ''h'', yanchor = ''bottom'', legend_y = 102 / 100,
         xanchor = ''right'', legend_x = 1\<rparr>"
  by (simp add: cell5_def Figure_def add_scatter_def update_layout_def)

section \<open>Properties of a recomputation\<close>

subsection \<open>Degenerate data\<close>

lemma small_all_equal: "length xs < 2 \<Longrightarrow> list_all (\<lambda>u. u = hd xs) xs"
proof -
  assume "length xs < 2"
  then have "xs = [] \<or> (\<exists>a. xs = [a])"
    by (cases xs) (auto simp: length_Suc_conv)
  then show ?thesis by auto
qed

lemma all_equal_replicate:
  "list_all (\<lambda>u. u = p) xs \<Longrightarrow> xs = replicate (length xs) p"
  by (simp add: list_all_iff replicate_length_same)

lemma polyfit1_all_equal:
  fixes xs :: "real list"
  assumes "list_all (\<lambda>u. u = p) xs"
  shows "polyfit1 xs ys = (NaN, NaN)"
proof -
  define n where "n = length xs"
  have xs: "xs = replicate n p" using all_equal_replicate [OF assms] by (simp add: n_def)
  have "real (length xs) * (\<Sum>u\<leftarrow>xs. u * u) - sum_list xs * sum_list xs = 0"
    by (subst (1 2 3 4) xs) (simp add: sum_list_replicate algebra_simps)
  then show ?thesis by (simp add: polyfit1_def pf_div_def Let_def)
qed

lemma corrcoef_all_equal:
  fixes xs :: "real list"
  assumes "list_all (\<lambda>u. u = p) xs"
  shows "corrcoef xs ys = NaN"
proof (cases "length xs < 2")
  case True
  then show ?thesis by (simp add: corrcoef_def)
next
  case False
  define n where "n = length xs"
  have xs: "xs = replicate n p" using all_equal_replicate [OF assms] by (simp add: n_def)
  have n: "0 < n" using False by (cases xs) (auto simp: n_def)
  have "mean (replicate n p) = p" using n by (simp add: mean_def sum_list_replicate)
  then have m: "mean xs = p" by (subst xs)
  have "(\<Sum>(a, b)\<leftarrow>zip xs xs. (a - mean xs) * (b - mean xs)) =
      (\<Sum>u\<leftarrow>xs. (u - p) * (u - p))"
    by (simp add: sum_zip_same m)
  also have "\<dots> = 0" by (subst xs) (simp add: sum_list_replicate)
  finally have "cov xs xs = 0" by (simp add: cov_def)
  then show ?thesis by (simp add: corrcoef_def Let_def)
qed

lemma cell3_degenerate:
  assumes "length (x_col d) < 2 \<or> list_all (\<lambda>u. u = p) (x_col d)"
  shows "slope (cell3 d) = NaN" and "intercept (cell3 d) = NaN" and "r (cell3 d) = NaN"
    and "y_hat (cell3 d) = map (\<lambda>xi. NaN) (x_col d)"
proof -
  obtain p' where all: "list_all (\<lambda>u. u = p') (x_col d)"
    using assms small_all_equal [of "x_col d"] by blast
  have fit: "polyfit1 (x_col d) (y_col d) = (NaN, NaN)" by (rule polyfit1_all_equal [OF all])
  show s: "slope (cell3 d) = NaN" and i: "intercept (cell3 d) = NaN"
    by (simp_all add: cell3_fields fit)
  show "r (cell3 d) = NaN" by (simp add: cell3_fields corrcoef_all_equal [OF all])
  show "y_hat (cell3 d) = map (\<lambda>xi. NaN) (x_col d)"
    by (subst cell3_fields(4)) (simp add: s i)
qed

lemma cell4_nan:
  "sublist ''$y = nanx + nan$'' (cell4 NaN ns c ss NaN)"
  "sublist ''$r = nan$'' (cell4 icpt ns NaN ss slp)"
proof -
  have e1: "''$y = '' @ format_f 2 NaN @ ''x + '' @ format_f 2 NaN @ ''$'' = ''$y = nanx + nan$''"
    by simp
  show "sublist ''$y = nanx + nan$'' (cell4 NaN ns c ss NaN)"
    using cell4_sublists(1) [of NaN NaN ns c ss] unfolding e1 .
  have e2: "''$r = '' @ format_f 3 NaN @ ''$'' = ''$r = nan$''" by simp
  show "sublist ''$r = nan$'' (cell4 icpt ns NaN ss slp)"
    using cell4_sublists(2) [of NaN icpt ns ss slp] unfolding e2 .
qed

lemma cell2_small:
  assumes "0 \<le> nv" and "nv < 2" and "0 \<le> sv"
  shows "\<exists>d. cell2 Z nv sv = Inr d \<and> length (x_col d) < 2"
proof -
  obtain xs where xs: "linspace 0 10 nv = Inr xs" and len: "length xs = nat nv"
    using linspace_Inr [OF assms(1), of 0 10] by blast
  show ?thesis using assms(2) len by (simp add: cell2_def cell2_body_Inr [OF xs assms(3)])
qed

lemma cell2_raises:
  assumes "nv < 0 \<or> sv < 0"
  shows "cell2_body Z nv sv = Inl ValueError"
  using assms
  by (auto simp: cell2_body_def linspace_def normal_def default_rng_def Let_def
      split: sum.splits)

text \<open>
  Claim C7. On a dataset with fewer than two \<open>x\<close> values, or whose \<open>x\<close> values are all
  the same, the fit cell returns NaN for the slope, for the intercept and for \<open>r\<close>, and a
  \<open>y_hat\<close> of NaNs; no test stands in the way, and the report prints them as \<open>nan\<close>. For
  \<open>n = 0\<close> or \<open>n = 1\<close> the whole cycle runs to its end with these values. For a negative
  \<open>n\<close> or a negative \<open>sigma\<close> cell 2 raises \<open>ValueError\<close>; whatever cell 2 raises is the
  result of the cycle, which has then run no later cell, and the kernel holds no
  dataset. The fit formulas are the closed form the spec names. The library's own answer
  on such data is outside the model: \<open>numpy.polyfit\<close> warns of a rank-deficient fit and
  returns a line of minimum norm, and it raises on empty data.
\<close>

theorem degenerate_fit_undefined:
  "(length (x_col d) < 2 \<or> list_all (\<lambda>u. u = p) (x_col d) \<longrightarrow>
      slope (cell3 d) = NaN \<and> intercept (cell3 d) = NaN \<and> r (cell3 d) = NaN
      \<and> y_hat (cell3 d) = map (\<lambda>xi. NaN) (x_col d)
      \<and> sublist ''$y = nanx + nan$''
          (cell4 (intercept (cell3 d)) ns (r (cell3 d)) ss (slope (cell3 d)))
      \<and> sublist ''$r = nan$''
          (cell4 (intercept (cell3 d)) ns (r (cell3 d)) ss (slope (cell3 d))))
   \<and> (0 \<le> slider_value ns \<and> slider_value ns < 2 \<and> 0 \<le> slider_value ss \<longrightarrow>
      (\<exists>out. recompute Z ns ss = Inr out
         \<and> slope (out_fit out) = NaN \<and> intercept (out_fit out) = NaN
         \<and> r (out_fit out) = NaN
         \<and> sublist ''$y = nanx + nan$'' (out_report out)
         \<and> sublist ''$r = nan$'' (out_report out)))
   \<and> (slider_value ns < 0 \<or> slider_value ss < 0 \<longrightarrow>
      cell2 Z (slider_value ns) (slider_value ss) = Inl ValueError
      \<and> recompute Z ns ss = Inl ValueError
      \<and> df_var (run_cell2 Z k (slider_value ns, slider_value ss)) = None)
   \<and> (\<forall>e. cell2 Z (slider_value ns) (slider_value ss) = Inl e \<longrightarrow>
      recompute Z ns ss = Inl e
      \<and> df_var (run_cell2 Z k (slider_value ns, slider_value ss)) = None)"
proof (intro conjI allI impI)
  assume h: "length (x_col d) < 2 \<or> list_all (\<lambda>u. u = p) (x_col d)"
  note f = cell3_degenerate [OF h]
  show "slope (cell3 d) = NaN" "intercept (cell3 d) = NaN" "r (cell3 d) = NaN"
    "y_hat (cell3 d) = map (\<lambda>xi. NaN) (x_col d)"
    by (rule f)+
  show "sublist ''$y = nanx + nan$''
      (cell4 (intercept (cell3 d)) ns (r (cell3 d)) ss (slope (cell3 d)))"
    unfolding f(1,2) by (rule cell4_nan(1))
  show "sublist ''$r = nan$''
      (cell4 (intercept (cell3 d)) ns (r (cell3 d)) ss (slope (cell3 d)))"
    unfolding f(3) by (rule cell4_nan(2))
next
  assume h: "0 \<le> slider_value ns \<and> slider_value ns < 2 \<and> 0 \<le> slider_value ss"
  then obtain d where d: "cell2 Z (slider_value ns) (slider_value ss) = Inr d"
    and len: "length (x_col d) < 2"
    using cell2_small [of "slider_value ns" "slider_value ss" Z] by blast
  have deg: "length (x_col d) < 2 \<or> list_all (\<lambda>u. u = 0) (x_col d)" using len by simp
  note f = cell3_degenerate [OF deg]
  have rc: "recompute Z ns ss = Inr \<lparr>out_df = d, out_fit = cell3 d,
      out_report = cell4 (intercept (cell3 d)) ns (r (cell3 d)) ss (slope (cell3 d)),
      out_fig = cell5 d (y_hat (cell3 d))\<rparr>"
    by (simp add: recompute_def d Let_def)
  have s1: "sublist ''$y = nanx + nan$''
      (cell4 (intercept (cell3 d)) ns (r (cell3 d)) ss (slope (cell3 d)))"
    unfolding f(1,2) by (rule cell4_nan(1))
  have s2: "sublist ''$r = nan$''
      (cell4 (intercept (cell3 d)) ns (r (cell3 d)) ss (slope (cell3 d)))"
    unfolding f(3) by (rule cell4_nan(2))
  show "\<exists>out. recompute Z ns ss = Inr out
      \<and> slope (out_fit out) = NaN \<and> intercept (out_fit out) = NaN
      \<and> r (out_fit out) = NaN
      \<and> sublist ''$y = nanx + nan$'' (out_report out)
      \<and> sublist ''$r = nan$'' (out_report out)"
    unfolding rc using f(1,2,3) s1 s2
    by (intro exI [of _ "\<lparr>out_df = d, out_fit = cell3 d,
      out_report = cell4 (intercept (cell3 d)) ns (r (cell3 d)) ss (slope (cell3 d)),
      out_fig = cell5 d (y_hat (cell3 d))\<rparr>"] conjI refl)
      (simp_all only: outputs.select_convs)
next
  assume h: "slider_value ns < 0 \<or> slider_value ss < 0"
  have b: "cell2_body Z (slider_value ns) (slider_value ss) = Inl ValueError"
    by (rule cell2_raises [OF h])
  show c: "cell2 Z (slider_value ns) (slider_value ss) = Inl ValueError"
    by (simp add: cell2_def b)
  show "recompute Z ns ss = Inl ValueError" by (simp add: recompute_def c)
  show "df_var (run_cell2 Z k (slider_value ns, slider_value ss)) = None"
    by (simp add: run_cell2_def b)
next
  fix e
  assume c: "cell2 Z (slider_value ns) (slider_value ss) = Inl e"
  show "recompute Z ns ss = Inl e" by (simp add: recompute_def c)
  show "df_var (run_cell2 Z k (slider_value ns, slider_value ss)) = None"
    by (simp add: run_cell2_df_var c)
qed

text \<open>
  The theorem on three points with \<open>x = 3\<close>, for a cycle at \<open>n = 1\<close> and for a cycle at
  \<open>n = -1\<close>.
\<close>

theorem degenerate_fit_undefined_witness:
  "list_all (\<lambda>u. u = 3) (x_col \<lparr>x_col = [3, 3, 3], y_col = [1, 2, 3]\<rparr>)
   \<and> slope (cell3 \<lparr>x_col = [3, 3, 3], y_col = [1, 2, 3]\<rparr>) = NaN
   \<and> intercept (cell3 \<lparr>x_col = [3, 3, 3], y_col = [1, 2, 3]\<rparr>) = NaN
   \<and> r (cell3 \<lparr>x_col = [3, 3, 3], y_col = [1, 2, 3]\<rparr>) = NaN
   \<and> y_hat (cell3 \<lparr>x_col = [3, 3, 3], y_col = [1, 2, 3]\<rparr>) = [NaN, NaN, NaN]
   \<and> slider_value (n_slider\<lparr>slider_value := 1\<rparr>) = 1
   \<and> slider_value sigma_slider = 1
   \<and> (\<exists>out. recompute sample_stream (n_slider\<lparr>slider_value := 1\<rparr>) sigma_slider = Inr out
         \<and> slope (out_fit out) = NaN \<and> intercept (out_fit out) = NaN
         \<and> r (out_fit out) = NaN
         \<and> sublist ''$y = nanx + nan$'' (out_report out)
         \<and> sublist ''$r = nan$'' (out_report out))
   \<and> slider_value (n_slider\<lparr>slider_value := - 1\<rparr>) = - 1
   \<and> cell2 sample_stream (- 1) 1 = Inl ValueError
   \<and> recompute sample_stream (n_slider\<lparr>slider_value := - 1\<rparr>) sigma_slider = Inl ValueError
   \<and> df_var (run_cell2 sample_stream kernel0 (- 1, 1)) = None"
proof -
  define d where "d = \<lparr>x_col = [3, 3, 3], y_col = [1, 2, 3 :: real]\<rparr>"
  define n1 where "n1 = n_slider\<lparr>slider_value := 1\<rparr>"
  define n2 where "n2 = n_slider\<lparr>slider_value := - 1\<rparr>"
  have a: "list_all (\<lambda>u. u = 3) (x_col d)" by (simp add: d_def)
  have v1: "slider_value n1 = 1" by (simp add: n1_def)
  have v2: "slider_value n2 = - 1" by (simp add: n2_def)
  have vs: "slider_value sigma_slider = 1" by (simp add: sigma_slider_def)
  note t1 = degenerate_fit_undefined [of d 3 n1 sigma_slider sample_stream kernel0]
  note t2 = degenerate_fit_undefined [of d 3 n2 sigma_slider sample_stream kernel0]
  have p1: "slope (cell3 d) = NaN \<and> intercept (cell3 d) = NaN \<and> r (cell3 d) = NaN
      \<and> y_hat (cell3 d) = map (\<lambda>xi. NaN) (x_col d)"
    using t1 [THEN conjunct1] a by blast
  have yh: "y_hat (cell3 d) = [NaN, NaN, NaN]"
    using p1 by (simp add: d_def)
  have p2: "\<exists>out. recompute sample_stream n1 sigma_slider = Inr out
         \<and> slope (out_fit out) = NaN \<and> intercept (out_fit out) = NaN
         \<and> r (out_fit out) = NaN
         \<and> sublist ''$y = nanx + nan$'' (out_report out)
         \<and> sublist ''$r = nan$'' (out_report out)"
    by (rule t1 [THEN conjunct2, THEN conjunct1, THEN mp]) (simp add: v1 vs)
  have p3: "cell2 sample_stream (slider_value n2) (slider_value sigma_slider) = Inl ValueError
      \<and> recompute sample_stream n2 sigma_slider = Inl ValueError
      \<and> df_var (run_cell2 sample_stream kernel0 (slider_value n2, slider_value sigma_slider))
          = None"
    by (rule t2 [THEN conjunct2, THEN conjunct2, THEN conjunct1, THEN mp]) (simp add: v2)
  have c2: "cell2 sample_stream (- 1) 1 = Inl ValueError"
    using p3 [THEN conjunct1] unfolding v2 vs .
  have dv: "df_var (run_cell2 sample_stream kernel0 (- 1, 1)) = None"
    using p3 [THEN conjunct2, THEN conjunct2] unfolding v2 vs .
  show ?thesis
    using a p1 [THEN conjunct1] p1 [THEN conjunct2, THEN conjunct1]
      p1 [THEN conjunct2, THEN conjunct2, THEN conjunct1] yh v1 vs p2 v2 c2
      p3 [THEN conjunct2, THEN conjunct1] dv
    unfolding d_def n1_def n2_def by (intro conjI)
qed

end
